theory Spec2Isabelle
  imports Main "HOL-Library.AList" "HOL-Library.Char_ord" "HOL-Library.List_Lexorder"
begin

section \<open>Data model of \<open>hydrolib/dhydamo/io/common.py\<close>\<close>

text \<open>
  The module adapts geopandas' \<open>GeoDataFrame\<close>. A geometry is a shapely object; its
  coordinates are carried along and never inspected by the module, so they are a type
  parameter. A cell of a dataframe holds an integer, a string, a geometry or nothing
  (\<open>None\<close>/\<open>NaN\<close>).
\<close>

datatype 'c geometry =
    Point 'c
  | LineString "'c list"
  | Polygon "'c list"
  | MultiPoint "'c list"
  | MultiLineString "'c list list"
  | MultiPolygon "'c list list"

datatype geomclass =
  PointT | LineStringT | PolygonT | MultiPointT | MultiLineStringT | MultiPolygonT

fun class_of :: "'c geometry \<Rightarrow> geomclass" where
  "class_of (Point _) = PointT"
| "class_of (LineString _) = LineStringT"
| "class_of (Polygon _) = PolygonT"
| "class_of (MultiPoint _) = MultiPointT"
| "class_of (MultiLineString _) = MultiLineStringT"
| "class_of (MultiPolygon _) = MultiPolygonT"

datatype 'c val =
    is_IntV: IntV (int_of: int)
  | is_StrV: StrV (str_of: string)
  | is_GeomV: GeomV (geom_of: "'c geometry")
  | NaN

datatype error =
  KeyError | TypeError | ValueError | IOError | OSError | IndexError | AttributeError
  | GeometryError

text \<open>
  \<open>isinstance(geo, classes)\<close>: the second argument is a class or a tuple of classes,
  modelled as the list of accepted classes. A missing geometry is an instance of none.
\<close>

fun isinstance :: "'c val \<Rightarrow> geomclass list \<Rightarrow> bool" where
  "isinstance (GeomV g) cls = (class_of g \<in> set cls)"
| "isinstance _ cls = False"

text \<open>
  A dataframe is stored by column, as pandas stores it: the columns in order, each a
  name with its values, and the row labels (the index). The geometry column of a
  \<open>GeoDataFrame\<close> is the column named \<open>geometry\<close>. An \<open>ExtendedGeoDataFrame\<close> adds
  the two metadata fields of the class.
\<close>

record 'c frame =
  cols :: "(string \<times> 'c val list) list"
  index :: "'c val list"
  crs :: "string option"

record 'c egdf = "'c frame" +
  required_columns :: "string list"
  geotype :: "geomclass list"

definition columns :: "('c, 'm) frame_scheme \<Rightarrow> string list" where
  "columns F = map fst (cols F)"

definition empty :: "('c, 'm) frame_scheme \<Rightarrow> bool" where
  \<comment> \<open>pandas: a frame is empty when one of its axes has length 0\<close>
  "empty F = (cols F = [] \<or> index F = [])"

definition wf_frame :: "('c, 'm) frame_scheme \<Rightarrow> bool" where
  \<comment> \<open>the representation invariant: distinct column names, every column as long as the index\<close>
  "wf_frame F = (distinct (columns F) \<and> list_all (\<lambda>(c, vs). length vs = length (index F)) (cols F))"

definition geometry_column :: "('c, 'm) frame_scheme \<Rightarrow> 'c val list option" where
  "geometry_column F = map_of (cols F) ''geometry''"

subsection \<open>\<open>__init__\<close>\<close>

definition init :: "geomclass list \<Rightarrow> string list \<Rightarrow> 'c egdf" where
  \<comment> \<open>no data given: the required columns become the columns of an empty frame\<close>
  "init gt req =
     \<lparr>cols = map (\<lambda>c. (c, [])) req, index = [], crs = None,
      required_columns = req, geotype = gt\<rparr>"

subsection \<open>\<open>delete_all\<close>\<close>

definition delete_all :: "('c, 'm) frame_scheme \<Rightarrow> ('c, 'm) frame_scheme" where
  \<comment> \<open>the first column is set to NaN and every row holding a NaN is dropped: no row is left\<close>
  "delete_all F =
     (if \<not> empty F then F\<lparr>cols := map (\<lambda>(c, vs). (c, [])) (cols F), index := []\<rparr> else F)"

subsection \<open>\<open>self[col] = values\<close>\<close>

text \<open>
  pandas' column assignment from an array: a frame without rows first takes a fresh
  range index as long as the values (its other columns filled with NaN); values of
  another length than the index raise ValueError; an existing column is replaced in
  place and a new one is appended.
\<close>

definition reindex :: "nat \<Rightarrow> ('c, 'm) frame_scheme \<Rightarrow> ('c, 'm) frame_scheme" where
  "reindex n F =
     (if index F = [] \<and> n \<noteq> 0
      then F\<lparr>cols := map (\<lambda>(k, _). (k, replicate n NaN)) (cols F),
             index := map (\<lambda>i. IntV (int i)) [0..<n]\<rparr>
      else F)"

definition setitem ::
  "string \<Rightarrow> 'c val list \<Rightarrow> ('c, 'm) frame_scheme \<Rightarrow> error + ('c, 'm) frame_scheme" where
  "setitem c vs F =
     (let F1 = reindex (length vs) F
      in if length vs \<noteq> length (index F1) then Inl ValueError
         else Inr (F1\<lparr>cols := AList.update c vs (cols F1)\<rparr>))"

subsection \<open>\<open>_check_columns\<close> and \<open>_check_geotype\<close>\<close>

fun check_columns_loop :: "string list \<Rightarrow> string list \<Rightarrow> error option" where
  "check_columns_loop present [] = None"
| "check_columns_loop present (column # rest) =
     (if column \<notin> set present then Some KeyError else check_columns_loop present rest)"

definition check_columns :: "'c egdf \<Rightarrow> ('c, 'm) frame_scheme \<Rightarrow> error option" where
  "check_columns self gdf = check_columns_loop (columns gdf) (required_columns self)"

definition check_geotype :: "'c egdf \<Rightarrow> error option" where
  "check_geotype self =
     (case geometry_column self of
        None \<Rightarrow> Some AttributeError
      | Some geos \<Rightarrow>
          if \<not> list_all (\<lambda>geo. isinstance geo (geotype self)) geos then Some TypeError
          else None)"

subsection \<open>\<open>set_data\<close>\<close>

text \<open>
  The loop \<open>for col, values in gdf.items(): self[col] = values.values\<close>. The values of
  the geometry column are a geometry array, which carries the coordinate reference
  system of \<open>gdf\<close>; assigning it makes that the reference system of \<open>self\<close>.
  An array without a reference system leaves the one of \<open>self\<close> as it is.
\<close>

fun copy_content ::
  "string option \<Rightarrow> (string \<times> 'c val list) list \<Rightarrow> 'c egdf \<Rightarrow> error option \<times> 'c egdf" where
  "copy_content gcrs [] self = (None, self)"
| "copy_content gcrs ((col, values) # rest) self =
     (case setitem col values self of
        Inl e \<Rightarrow> (Some e, self)
      | Inr self' \<Rightarrow>
          copy_content gcrs rest
            (if col = ''geometry'' \<and> gcrs \<noteq> None then self'\<lparr>crs := gcrs\<rparr> else self'))"

definition set_index :: "'c val list \<Rightarrow> 'c egdf \<Rightarrow> error option \<times> 'c egdf" where
  \<comment> \<open>\<open>self.index = labels\<close>: pandas refuses labels of another length\<close>
  "set_index labels self =
     (if length labels \<noteq> length (index self) then (Some ValueError, self)
      else (None, self\<lparr>index := labels\<rparr>))"

definition set_data ::
  "'c egdf \<Rightarrow> ('c, 'm) frame_scheme \<Rightarrow> string option \<Rightarrow> bool \<Rightarrow> bool \<Rightarrow> error option \<times> 'c egdf" where
  "set_data self gdf index_col chk_columns chk_geotype =
     (let s1 = (if \<not> empty self then delete_all self else self) in
      case (if chk_columns then check_columns s1 gdf else None) of
        Some e \<Rightarrow> (Some e, s1)
      | None \<Rightarrow>
         (case copy_content (crs gdf) (cols gdf) s1 of
            (Some e, s2) \<Rightarrow> (Some e, s2)
          | (None, s2) \<Rightarrow>
             (case (case index_col of
                      None \<Rightarrow> set_index (index gdf) s2
                    | Some c \<Rightarrow>
                        (case map_of (cols gdf) c of
                           None \<Rightarrow> (Some KeyError, s2)
                         | Some labels \<Rightarrow> set_index labels s2)) of
                (Some e, s3) \<Rightarrow> (Some e, s3)
              | (None, s3) \<Rightarrow>
                  if chk_geotype then (check_geotype s3, s3) else (None, s3))))"

subsection \<open>The frame \<open>set_data\<close> leaves behind, in closed form\<close>

definition stored :: "'c egdf \<Rightarrow> ('c, 'm) frame_scheme \<Rightarrow> 'c egdf" where
  "stored self gdf =
     (let r = reindex (length (index gdf)) (delete_all self)
      in r\<lparr>cols := fold (\<lambda>(c, vs). AList.update c vs) (cols gdf) (cols r),
            index := index gdf,
            crs := (if ''geometry'' \<in> set (columns gdf) \<and> crs gdf \<noteq> None then crs gdf
                    else crs self)\<rparr>)"

subsection \<open>\<open>clip\<close>\<close>

text \<open>
  \<open>self.loc[mask]\<close> keeps the rows whose mask entry is true, in every column and in the
  index. \<open>intersects\<close> is the predicate of the geometry library, taken as a parameter.
\<close>

definition select :: "bool list \<Rightarrow> 'a list \<Rightarrow> 'a list" where
  "select keep xs = map snd (filter fst (zip keep xs))"

definition loc_mask :: "bool list \<Rightarrow> ('c, 'm) frame_scheme \<Rightarrow> ('c, 'm) frame_scheme" where
  "loc_mask keep F =
     F\<lparr>cols := map (\<lambda>(c, vs). (c, select keep vs)) (cols F), index := select keep (index F)\<rparr>"

definition clip ::
  "('c val \<Rightarrow> 'c val \<Rightarrow> bool) \<Rightarrow> 'c egdf \<Rightarrow> 'c val \<Rightarrow> error option \<times> 'c egdf" where
  "clip intersects self geometry =
     (if \<not> isinstance geometry [PolygonT, MultiPolygonT] then (Some TypeError, self)
      else case geometry_column self of
             None \<Rightarrow> (Some AttributeError, self)
           | Some geos \<Rightarrow>
               (let gdf = loc_mask (map (\<lambda>g. intersects g geometry) geos) self
                in if empty gdf then (Some ValueError, self)
                   else set_data self gdf None True True))"

subsection \<open>\<open>check_projection\<close>\<close>

text \<open>
  \<open>to_crs\<close> of the library: it needs a geometry column and a reference system to start
  from (it raises ValueError on a frame that has none), transforms every coordinate of
  every geometry and records the new reference system. The coordinate transformation
  itself is a parameter.
\<close>

definition to_crs ::
  "(string \<Rightarrow> string \<Rightarrow> 'c \<Rightarrow> 'c) \<Rightarrow> string \<Rightarrow> ('c, 'm) frame_scheme
     \<Rightarrow> error + ('c, 'm) frame_scheme" where
  "to_crs transform crs_out F =
     (case geometry_column F of
        None \<Rightarrow> Inl AttributeError
      | Some geos \<Rightarrow>
         (case crs F of
            None \<Rightarrow> Inl ValueError
          | Some crs_in \<Rightarrow>
              Inr (F\<lparr>cols := AList.update ''geometry''
                               (map (map_val (transform crs_in crs_out)) geos) (cols F),
                     crs := Some crs_out\<rparr>)))"

definition check_projection ::
  "(string \<Rightarrow> string \<Rightarrow> 'c \<Rightarrow> 'c) \<Rightarrow> 'c egdf \<Rightarrow> string \<Rightarrow> error option \<times> 'c egdf" where
  "check_projection transform self crs_out =
     (if Some crs_out \<noteq> crs self
      then (case to_crs transform crs_out self of
              Inl e \<Rightarrow> (Some e, self)
            | Inr self' \<Rightarrow> (None, self'))
      else (None, self))"

subsection \<open>\<open>merge_columns\<close>\<close>



subsection \<open>Helpers of the readers\<close>

text \<open>
  Comparing a column with a value, as \<open>gdf[col] == value\<close> does, is false on a missing
  value. \<open>rename(columns=mapping)\<close> renames the columns the mapping names.
\<close>

definition cell_eq :: "'c val \<Rightarrow> 'c val \<Rightarrow> bool" where
  "cell_eq a b = (a \<noteq> NaN \<and> a = b)"

definition rename_columns ::
  "(string \<times> string) list option \<Rightarrow> ('c, 'm) frame_scheme \<Rightarrow> ('c, 'm) frame_scheme" where
  "rename_columns column_mapping F =
     (case column_mapping of
        None \<Rightarrow> F
      | Some mapping \<Rightarrow>
          F\<lparr>cols := map (\<lambda>(c, vs). ((case map_of mapping c of None \<Rightarrow> c | Some c' \<Rightarrow> c'), vs))
                          (cols F)\<rparr>)"

text \<open>
  \<open>explode()\<close> of the library: a multi-part geometry becomes one row per part, the
  other cells and the row label repeated; a single-part geometry is its only part, and a
  missing geometry has no part.
\<close>

fun parts :: "'c val \<Rightarrow> 'c val list" where
  "parts (GeomV (MultiPoint ps)) = map (\<lambda>p. GeomV (Point p)) ps"
| "parts (GeomV (MultiLineString ls)) = map (\<lambda>l. GeomV (LineString l)) ls"
| "parts (GeomV (MultiPolygon ps)) = map (\<lambda>p. GeomV (Polygon p)) ps"
| "parts NaN = []"
| "parts v = [v]"

definition repeat_rows :: "nat list \<Rightarrow> 'a list \<Rightarrow> 'a list" where
  "repeat_rows ns xs = concat (map (\<lambda>(n, x). replicate n x) (zip ns xs))"

definition explode :: "('c, 'm) frame_scheme \<Rightarrow> error + ('c, 'm) frame_scheme" where
  "explode F =
     (case geometry_column F of
        None \<Rightarrow> Inl AttributeError
      | Some geos \<Rightarrow>
          (let ns = map (\<lambda>g. length (parts g)) geos
           in Inr (F\<lparr>cols := map (\<lambda>(c, vs). (c, if c = ''geometry'' then concat (map parts geos)
                                                   else repeat_rows ns vs)) (cols F),
                    index := repeat_rows ns (index F)\<rparr>)))"

text \<open>
  The text of a number in an f-string, and the new identifier \<open>f"{i}_{n}"\<close>. The text
  of an identifier that is a string is the string itself.
\<close>

fun show_nat :: "nat \<Rightarrow> string" where
  "show_nat n =
     (if n < 10 then [''0123456789'' ! n] else show_nat (n div 10) @ [''0123456789'' ! (n mod 10)])"

definition show_int :: "int \<Rightarrow> string" where
  "show_int i = (if i < 0 then ''-'' @ show_nat (nat (- i)) else show_nat (nat i))"

fun str :: "'c val \<Rightarrow> string" where
  "str (StrV s) = s"
| "str (IntV i) = show_int i"
| "str NaN = ''nan''"
| "str (GeomV g) = ''GEOMETRY''"

definition suffixed :: "'c val \<Rightarrow> nat \<Rightarrow> 'c val" where
  "suffixed i n = StrV (str i @ ''_'' @ show_nat n)"

text \<open>
  The loop over \<open>gdf[id_col].unique()\<close>: an identifier that more than one row carries
  is replaced, in those rows, by the identifier followed by the row's rank among them; a
  line is printed for it. The loop works on the column as the earlier rounds left it.
\<close>

definition unique :: "'a list \<Rightarrow> 'a list" where
  \<comment> \<open>the distinct values, in the order of their first occurrence\<close>
  "unique xs = rev (remdups (rev xs))"

fun number_rows :: "'c val \<Rightarrow> nat \<Rightarrow> 'c val list \<Rightarrow> 'c val list" where
  "number_rows ftc n [] = []"
| "number_rows ftc n (i # ids) =
     (if cell_eq i ftc then suffixed i n # number_rows ftc (Suc n) ids
      else i # number_rows ftc n ids)"

fun rename_ids_loop :: "'c val list \<Rightarrow> 'c val list \<Rightarrow> 'c val list \<times> 'c val list" where
  "rename_ids_loop [] ids = ([], ids)"
| "rename_ids_loop (ftc # rest) ids =
     (if length (filter (\<lambda>i. cell_eq i ftc) ids) > 1
      then (let (printed, ids') = rename_ids_loop rest (number_rows ftc 0 ids)
            in (ftc # printed, ids'))
      else rename_ids_loop rest ids)"

definition split_parts ::
  "string \<Rightarrow> ('c, 'm) frame_scheme \<Rightarrow> 'c val list \<times> (error + ('c, 'm) frame_scheme)" where
  \<comment> \<open>\<open>gdf = gdf.explode()\<close> followed by the loop over the identifiers\<close>
  "split_parts id_col gdf =
     (case explode gdf of
        Inl e \<Rightarrow> ([], Inl e)
      | Inr gdf1 \<Rightarrow>
         (case map_of (cols gdf1) id_col of
            None \<Rightarrow> ([], Inl KeyError)
          | Some ids \<Rightarrow>
              (let (printed, ids') = rename_ids_loop (unique ids) ids
               in (printed, Inr (gdf1\<lparr>cols := AList.update id_col ids' (cols gdf1)\<rparr>)))))"

subsection \<open>\<open>read_shp\<close>\<close>

text \<open>
  The function starts from the dataframe that \<open>gpd.read_file(path)\<close> returns. The
  condition \<open>"MultiPolygon" or "MultiLineString" in str(gdf.geometry.type)\<close> is the
  non-empty string \<open>"MultiPolygon"\<close>, which is true: the splitting block runs for every
  file. The result is the exception raised (if any), the identifiers printed as split,
  and the instance as the call leaves it.
\<close>

definition filter_columns :: "string list \<Rightarrow> ('c, 'm) frame_scheme \<Rightarrow> ('c, 'm) frame_scheme" where
  "filter_columns required F = F\<lparr>cols := filter (\<lambda>(c, vs). c \<in> set required) (cols F)\<rparr>"

fun row_filter :: "(string \<times> 'c val) list \<Rightarrow> ('c, 'm) frame_scheme \<Rightarrow> error + bool list" where
  "row_filter [] F = Inr (map (\<lambda>_. True) (index F))"
| "row_filter ((key, v) # rest) F =
     (case map_of (cols F) key of
        None \<Rightarrow> Inl KeyError
      | Some vs \<Rightarrow>
         (case row_filter rest F of
            Inl e \<Rightarrow> Inl e
          | Inr keep \<Rightarrow> Inr (map (\<lambda>(x, k). cell_eq x v \<and> k) (zip vs keep))))"

definition drop_missing_geometry :: "('c, 'm) frame_scheme \<Rightarrow> error + ('c, 'm) frame_scheme" where
  \<comment> \<open>\<open>gdf.drop(gdf.index[gdf.geometry.isnull()])\<close>: rows are dropped by their label\<close>
  "drop_missing_geometry F =
     (case geometry_column F of
        None \<Rightarrow> Inl AttributeError
      | Some geos \<Rightarrow>
          (let missing = map snd (filter (\<lambda>(g, l). g = NaN) (zip geos (index F)))
           in Inr (loc_mask (map (\<lambda>l. l \<notin> set missing) (index F)) F)))"

definition read_shp ::
  "('c val \<Rightarrow> 'c val \<Rightarrow> bool) \<Rightarrow> (string \<Rightarrow> string \<Rightarrow> 'c \<Rightarrow> 'c) \<Rightarrow> 'c egdf \<Rightarrow> 'c frame
     \<Rightarrow> string option \<Rightarrow> (string \<times> string) list option \<Rightarrow> bool \<Rightarrow> string option
     \<Rightarrow> 'c val option \<Rightarrow> bool \<Rightarrow> string \<Rightarrow> bool \<Rightarrow> (string \<times> 'c val) list option
     \<Rightarrow> error option \<times> 'c val list \<times> 'c egdf" where
  "read_shp intersects transform self file index_col column_mapping chk_columns proj_crs
            clip_geometry chk_geotype id_col filter_cols filter_rows =
     (let gdf1 = (if filter_cols then filter_columns (required_columns self) file else file) in
      case (case filter_rows of
              None \<Rightarrow> Inr gdf1
            | Some kv \<Rightarrow> (case row_filter kv gdf1 of
                             Inl e \<Rightarrow> Inl e
                           | Inr keep \<Rightarrow> Inr (loc_mask keep gdf1))) of
        Inl e \<Rightarrow> (Some e, [], self)
      | Inr gdf2 \<Rightarrow>
         (case drop_missing_geometry gdf2 of
            Inl e \<Rightarrow> (Some e, [], self)
          | Inr gdf3 \<Rightarrow>
             (case split_parts id_col (rename_columns column_mapping gdf3) of
                (printed, Inl e) \<Rightarrow> (Some e, printed, self)
              | (printed, Inr gdf4) \<Rightarrow>
                  if empty gdf4 then (Some IOError, printed, self)
                  else (case set_data self gdf4 index_col chk_columns chk_geotype of
                          (Some e, s1) \<Rightarrow> (Some e, printed, s1)
                        | (None, s1) \<Rightarrow>
                           (case (case clip_geometry of
                                    None \<Rightarrow> (None, s1)
                                  | Some g \<Rightarrow> clip intersects s1 g) of
                              (Some e, s2) \<Rightarrow> (Some e, printed, s2)
                            | (None, s2) \<Rightarrow>
                               (case proj_crs of
                                  None \<Rightarrow> (None, printed, s2)
                                | Some crs_out \<Rightarrow>
                                    (case check_projection transform s2 crs_out of
                                       (e, s3) \<Rightarrow> (e, printed, s3))))))))"

subsection \<open>\<open>read_gpkg_layer\<close>: grouping points to lines\<close>

text \<open>
  The column names of the layer are put in lower case before anything else, by
  Python's \<open>str.lower\<close>, which is a parameter of the model.
\<close>

definition lower_columns ::
  "(string \<Rightarrow> string) \<Rightarrow> ('c, 'm) frame_scheme \<Rightarrow> ('c, 'm) frame_scheme" where
  "lower_columns lower F = F\<lparr>cols := map (\<lambda>(c, vs). (lower c, vs)) (cols F)\<rparr>"

text \<open>
  \<open>np.unique\<close> gives the distinct branch identifiers in ascending order; it needs
  identifiers that compare with one another, all integers or all strings here.
\<close>

definition np_unique :: "'c val list \<Rightarrow> error + 'c val list" where
  "np_unique vs =
     (if list_all is_IntV vs then Inr (map IntV (sort (remdups (map int_of vs))))
      else if list_all is_StrV vs then Inr (map StrV (sort (remdups (map str_of vs))))
      else Inl TypeError)"

text \<open>
  An order index is an integer or missing (NULL in the file, NaN in the column); the
  first comparison of any other cell with a number raises TypeError. Python compares
  with a NaN without raising: \<open><\<close> and \<open>==\<close> are false whenever a NaN takes
  part, \<open>min(a, b)\<close> is \<open>b\<close> when \<open>b < a\<close> and \<open>a\<close> otherwise. What
  \<open>list.sort\<close> makes of a list that holds a NaN depends on its algorithm and is a
  parameter of the model; a list without NaN is sorted in ascending order.
\<close>

definition order_values :: "'c val list \<Rightarrow> int option list option" where
  "order_values cells =
     (if list_all (\<lambda>c. is_IntV c \<or> c = NaN) cells
      then Some (map (\<lambda>c. if c = NaN then None else Some (int_of c)) cells)
      else None)"

definition py_less :: "int option \<Rightarrow> int option \<Rightarrow> bool" where
  "py_less a b = (case (a, b) of (Some x, Some y) \<Rightarrow> x < y | _ \<Rightarrow> False)"

definition py_eq :: "int option \<Rightarrow> int option \<Rightarrow> bool" where
  "py_eq a b = (case (a, b) of (Some x, Some y) \<Rightarrow> x = y | _ \<Rightarrow> False)"

definition py_min :: "int option \<Rightarrow> int option \<Rightarrow> int option" where
  "py_min a b = (if py_less b a then b else a)"

definition py_sort ::
  "(int option list \<Rightarrow> int option list) \<Rightarrow> int option list \<Rightarrow> int option list" where
  "py_sort nan_sort xs =
     (if None \<in> set xs then nan_sort xs else map Some (sort (List.map_filter (\<lambda>x. x) xs)))"

text \<open>
  The dictionary \<open>lines\<close> holds, for a branch, the list of its slots (a slot is the
  placeholder \<open>0\<close>, here \<open>None\<close>, or the geometry assigned to it) and later the
  line built from them. What the loops print is kept as a list of messages.
\<close>

datatype 'c entry = Slots "'c val option list" | Line "'c geometry"

datatype 'c message = NotAssigned "'c val" | SplitParts "'c val"

definition startnr :: "nat \<Rightarrow> 'c val list \<Rightarrow> int option list \<Rightarrow> 'c val \<Rightarrow> int option" where
  \<comment> \<open>every branch starts at the number of rows plus one; each row lowers its branch's entry\<close>
  "startnr n groupbyvalues order =
     fold (\<lambda>(branch, volgnr) m. m(branch := py_min volgnr (m branch)))
          (zip groupbyvalues order) (\<lambda>branch. Some (int n + 1))"

definition order_rel ::
  "(int option list \<Rightarrow> int option list) \<Rightarrow> 'c val list \<Rightarrow> int option list \<Rightarrow> nat list" where
  \<comment> \<open>for every row, every position of its order index in the sorted indices of its branch\<close>
  "order_rel nan_sort groupbyvalues order =
     concat (map (\<lambda>(branch, volgnr).
                    (let lst_volgnr = py_sort nan_sort
                                        (map snd (filter (\<lambda>x. fst x = branch)
                                                         (zip groupbyvalues order)))
                     in map fst (filter (\<lambda>(i, x). py_eq volgnr x) (enumerate 0 lst_volgnr))))
                 (zip groupbyvalues order))"

fun assign_points ::
  "('c val \<times> int option \<times> 'c val \<times> nat) list \<Rightarrow> ('c val \<rightharpoonup> 'c entry)
     \<Rightarrow> error + ('c val \<rightharpoonup> 'c entry)" where
  "assign_points [] lines = Inr lines"
| "assign_points ((point, volgnr, branch, volgnr_rel) # rest) lines =
     (case lines branch of
        None \<Rightarrow> Inl KeyError
      | Some (Line g) \<Rightarrow> Inl TypeError
      | Some (Slots sl) \<Rightarrow>
          if volgnr_rel < length sl
          then assign_points rest (lines(branch \<mapsto> Slots (sl[volgnr_rel := Some point])))
          else Inl IndexError)"

text \<open>
  The constructor \<open>LineString\<close> of the geometry library takes a sequence of points; it
  raises on anything that is not a point and on a single point (a line needs two).
\<close>

fun point_coord :: "'c val option \<Rightarrow> 'c option" where
  "point_coord (Some (GeomV (Point c))) = Some c"
| "point_coord _ = None"

definition LineString_of :: "'c val option list \<Rightarrow> error + 'c geometry" where
  "LineString_of pts =
     (if \<not> list_all (\<lambda>pt. point_coord pt \<noteq> None) pts then Inl GeometryError
      else if length pts = 1 then Inl GeometryError
      else Inr (LineString (map (\<lambda>pt. the (point_coord pt)) pts)))"

fun group_lines ::
  "'c val list \<Rightarrow> ('c val \<rightharpoonup> 'c entry)
     \<Rightarrow> 'c message list \<times> error option \<times> ('c val \<rightharpoonup> 'c entry)" where
  "group_lines [] lines = ([], None, lines)"
| "group_lines (branch # rest) lines =
     (case lines branch of
        None \<Rightarrow> ([], Some KeyError, lines)
      | Some (Line g) \<Rightarrow> ([], Some TypeError, lines)
      | Some (Slots sl) \<Rightarrow>
         (let flagged = list_ex (\<lambda>pt. pt = None) sl;
              printed = (if flagged then [NotAssigned branch] else []);
              pts = (if flagged then filter (\<lambda>pt. pt \<noteq> None) sl else sl)
          in case LineString_of pts of
               Inl e \<Rightarrow> (printed, Some e, lines(branch \<mapsto> Slots pts))
             | Inr g \<Rightarrow>
                (case group_lines rest (lines(branch \<mapsto> Line g)) of
                   (printed', e, lines') \<Rightarrow> (printed @ printed', e, lines'))))"

definition assigned_lines ::
  "(int option list \<Rightarrow> int option list) \<Rightarrow> 'c val list \<Rightarrow> 'c val list \<Rightarrow> int option list
     \<Rightarrow> 'c val list \<Rightarrow> error + ('c val \<rightharpoonup> 'c entry)" where
  \<comment> \<open>the dictionary after the loop that assigns the points\<close>
  "assigned_lines nan_sort branches groupbyvalues order geos =
     assign_points
       (zip geos (zip order (zip groupbyvalues (order_rel nan_sort groupbyvalues order))))
       (map_of (zip branches
                    (map (\<lambda>branch. Slots (replicate (count_list groupbyvalues branch) None))
                         branches)))"

definition iloc :: "nat list \<Rightarrow> ('c, 'm) frame_scheme \<Rightarrow> ('c, 'm) frame_scheme" where
  "iloc idx F =
     F\<lparr>cols := map (\<lambda>(c, vs). (c, map (\<lambda>i. vs ! i) idx)) (cols F),
       index := map (\<lambda>i. index F ! i) idx\<rparr>"

fun line_geometries :: "('c val \<rightharpoonup> 'c entry) \<Rightarrow> 'c val list \<Rightarrow> error + 'c val list" where
  "line_geometries lines [] = Inr []"
| "line_geometries lines (branch # rest) =
     (case lines branch of
        None \<Rightarrow> Inl KeyError
      | Some (Slots sl) \<Rightarrow> Inl TypeError
      | Some (Line g) \<Rightarrow>
          (case line_geometries lines rest of
             Inl e \<Rightarrow> Inl e
           | Inr gs \<Rightarrow> Inr (GeomV g # gs)))"

text \<open>
  The grouping block. \<open>groupbyvalues\<close> is a column of the layer, a pandas Series, whose
  attribute \<open>index\<close> is the row index and not a method: the call
  \<open>groupbyvalues.index(branch)\<close>, made for the first branch with a single point, raises
  TypeError.
\<close>

definition group_points ::
  "(int option list \<Rightarrow> int option list) \<Rightarrow> ('c, 'm) frame_scheme \<Rightarrow> string \<Rightarrow> string option
     \<Rightarrow> 'c message list \<times> (error + ('c, 'm) frame_scheme)" where
  "group_points nan_sort layer groupby_column order_column =
     (if groupby_column \<notin> set (columns layer) then ([], Inl ValueError)
      else case geometry_column layer of
        None \<Rightarrow> ([], Inl AttributeError)
      | Some [] \<Rightarrow> ([], Inl IndexError)
      | Some (first # others) \<Rightarrow>
         if \<not> isinstance first [PointT] then ([], Inl ValueError)
         else case map_of (cols layer) groupby_column of
           None \<Rightarrow> ([], Inl KeyError)
         | Some groupbyvalues \<Rightarrow>
            (case (case order_column of None \<Rightarrow> None | Some oc \<Rightarrow> map_of (cols layer) oc) of
               None \<Rightarrow> ([], Inl KeyError)
             | Some order_cells \<Rightarrow>
                (case np_unique groupbyvalues of
                   Inl e \<Rightarrow> ([], Inl e)
                 | Inr branches \<Rightarrow>
                    (case order_values order_cells of
                       None \<Rightarrow> ([], Inl TypeError)
                     | Some order \<Rightarrow>
                        (case assigned_lines nan_sort branches groupbyvalues order (first # others) of
                           Inl e \<Rightarrow> ([], Inl e)
                         | Inr lines1 \<Rightarrow>
                            (case group_lines
                                    (filter (\<lambda>branch. \<not> count_list groupbyvalues branch < 2) branches)
                                    lines1 of
                               (printed, Some e, lines2) \<Rightarrow> (printed, Inl e)
                             | (printed, None, lines2) \<Rightarrow>
                                 if list_ex (\<lambda>branch. count_list groupbyvalues branch < 2) branches
                                 then (printed, Inl TypeError)
                                 else
                                  (let start = startnr (length (index layer)) groupbyvalues order;
                                       idx = map fst (filter (\<lambda>(nr, i, branch). py_eq i (start branch))
                                                (enumerate 0 (zip order groupbyvalues)));
                                       fields = iloc idx layer
                                   in case line_geometries lines2
                                             (map (\<lambda>i. groupbyvalues ! i) idx) of
                                        Inl e \<Rightarrow> (printed, Inl e)
                                      | Inr geometries \<Rightarrow>
                                          (printed,
                                           Inr (fields\<lparr>cols := AList.update ''geometry'' geometries
                                                                  (cols fields)\<rparr>)))))))))"

text \<open>
  The whole reader, from the layer that \<open>gpd.read_file\<close> returns; \<open>str.lower\<close>
  and the sorting of lists with a NaN are its parameters. The result is the
  exception raised (if any), what was printed, and the instance as the call leaves it.
\<close>

definition read_gpkg_layer ::
  "('c val \<Rightarrow> 'c val \<Rightarrow> bool) \<Rightarrow> (string \<Rightarrow> string) \<Rightarrow> (int option list \<Rightarrow> int option list)
     \<Rightarrow> 'c egdf \<Rightarrow> bool \<Rightarrow> 'c frame \<Rightarrow> string option
     \<Rightarrow> string option \<Rightarrow> string option \<Rightarrow> string \<Rightarrow> (string \<times> string) list option
     \<Rightarrow> bool \<Rightarrow> bool \<Rightarrow> 'c val option
     \<Rightarrow> error option \<times> 'c message list \<times> 'c egdf" where
  "read_gpkg_layer intersects lower nan_sort self path_exists file index_col groupby_column
                   order_column id_col column_mapping chk_columns chk_geotype clip_geometry =
     (if \<not> path_exists then (Some OSError, [], self)
      else
       (let layer = lower_columns lower file in
        case (case groupby_column of
                Some g \<Rightarrow> group_points nan_sort layer g order_column
              | None \<Rightarrow> (case geometry_column layer of
                           None \<Rightarrow> ([], Inl AttributeError)
                         | Some geos \<Rightarrow> ([], Inr layer))) of
          (printed, Inl e) \<Rightarrow> (Some e, printed, self)
        | (printed, Inr gdf0) \<Rightarrow>
           (let gdf1 = rename_columns column_mapping gdf0 in
            case geometry_column gdf1 of
              None \<Rightarrow> (Some AttributeError, printed, self)
            | Some geos \<Rightarrow>
               (case (if list_ex (\<lambda>g. isinstance g [MultiPolygonT]) geos
                      then split_parts id_col gdf1 else ([], Inr gdf1)) of
                  (split, Inl e) \<Rightarrow> (Some e, printed @ map SplitParts split, self)
                | (split, Inr gdf2) \<Rightarrow>
                   (case set_data self gdf2 index_col chk_columns chk_geotype of
                      (Some e, s1) \<Rightarrow> (Some e, printed @ map SplitParts split, s1)
                    | (None, s1) \<Rightarrow>
                       (case clip_geometry of
                          None \<Rightarrow> (None, printed @ map SplitParts split, s1)
                        | Some g \<Rightarrow>
                            (case clip intersects s1 g of
                               (e, s2) \<Rightarrow> (e, printed @ map SplitParts split, s2))))))))"

subsection \<open>A branch whose assigned points the constructor takes\<close>

definition accepted :: "('c val \<rightharpoonup> 'c entry) \<Rightarrow> 'c val \<Rightarrow> bool" where
  \<comment> \<open>the branch still holds its slots, and the constructor takes the assigned ones\<close>
  "accepted lines branch =
     (case lines branch of
        Some (Slots sl) \<Rightarrow>
          (case LineString_of (filter (\<lambda>pt. pt \<noteq> None) sl) of Inl e \<Rightarrow> False | Inr g \<Rightarrow> True)
      | _ \<Rightarrow> False)"

subsection \<open>The lines the grouping is to reconstruct\<close>

definition branch_rows :: "'b list \<Rightarrow> int list \<Rightarrow> 'g list \<Rightarrow> 'b \<Rightarrow> (int \<times> 'g) list" where
  \<comment> \<open>the rows of a branch, each an order index with its point, in the order of the layer\<close>
  "branch_rows groupbyvalues order geos branch =
     map snd (filter (\<lambda>r. fst r = branch) (zip groupbyvalues (zip order geos)))"

definition points_in_order :: "'b list \<Rightarrow> int list \<Rightarrow> 'g list \<Rightarrow> 'b \<Rightarrow> 'g list" where
  \<comment> \<open>the points of a branch sorted by ascending order index\<close>
  "points_in_order groupbyvalues order geos branch =
     map snd (sort_key fst (branch_rows groupbyvalues order geos branch))"

definition line_through :: "'c val list \<Rightarrow> 'c geometry" where
  "line_through pts = LineString (map (\<lambda>pt. the (point_coord (Some pt))) pts)"

definition slots_after ::
  "('c val \<times> int option \<times> 'c val \<times> nat) list \<Rightarrow> 'c val \<Rightarrow> 'c val option list
     \<Rightarrow> 'c val option list" where
  \<comment> \<open>the slots of a branch once the given rows are assigned\<close>
  "slots_after rows branch sl =
     fold (\<lambda>(pt, v, b, k) s. if b = branch then s[k := Some pt] else s) rows sl"

definition rank :: "int list \<Rightarrow> int \<Rightarrow> nat" where
  \<comment> \<open>the number of order indices below a given one\<close>
  "rank vs v = length (filter (\<lambda>x. x < v) vs)"

definition start_rows :: "nat \<Rightarrow> 'c val list \<Rightarrow> int option list \<Rightarrow> nat list" where
  \<comment> \<open>the rows whose order index is the start number of their branch\<close>
  "start_rows n groupbyvalues order =
     map fst (filter (\<lambda>(nr, i, branch). py_eq i (startnr n groupbyvalues order branch))
                     (enumerate 0 (zip order groupbyvalues)))"

section \<open>Example data\<close>

definition ex_self :: "(int \<times> int) egdf" where
  "ex_self = init [PointT] [''code'']"

definition ex_points :: "(int \<times> int) frame" where
  "ex_points =
     \<lparr>cols = [(''code'', [StrV ''a'', StrV ''b'']),
              (''geometry'', [GeomV (Point (0, 0)), GeomV (Point (1, 1))])],
      index = [IntV 0, IntV 1], crs = Some ''EPSG:28992''\<rparr>"

definition ex_nocode :: "(int \<times> int) frame" where
  "ex_nocode =
     \<lparr>cols = [(''name'', [StrV ''a'']), (''geometry'', [GeomV (LineString [(0, 0), (1, 1)])])],
      index = [IntV 0], crs = None\<rparr>"

definition ex_stored :: "(int \<times> int) egdf" where
  "ex_stored =
     \<lparr>cols = [(''code'', [StrV ''a'', StrV ''b'']),
              (''geometry'', [GeomV (Point (0, 0)), GeomV (Point (5, 5))])],
      index = [IntV 0, IntV 1], crs = Some ''EPSG:28992'',
      required_columns = [''code''], geotype = [PointT]\<rparr>"

definition ex_box :: "(int \<times> int) val" where
  "ex_box = GeomV (Polygon [(0, 0), (2, 0), (2, 2), (0, 2)])"

fun ex_intersects :: "(int \<times> int) val \<Rightarrow> (int \<times> int) val \<Rightarrow> bool" where
  "ex_intersects (GeomV (Point (x, y))) _ = (0 \<le> x \<and> x \<le> 2 \<and> 0 \<le> y \<and> y \<le> 2)"
| "ex_intersects _ _ = False"

definition ex_nocrs :: "(int \<times> int) egdf" where
  "ex_nocrs = ex_stored\<lparr>crs := None\<rparr>"

fun ex_transform :: "string \<Rightarrow> string \<Rightarrow> int \<times> int \<Rightarrow> int \<times> int" where
  "ex_transform src dst (x, y) = (x + 100, y + 200)"



definition ex_shared_id :: "(int \<times> int) frame" where
  "ex_shared_id =
     \<lparr>cols = [(''code'', [StrV ''a'', StrV ''a'']),
              (''geometry'', [GeomV (Point (0, 0)), GeomV (Point (1, 1))])],
      index = [IntV 0, IntV 1], crs = None\<rparr>"

definition ex_no_geometry :: "(int \<times> int) frame" where
  "ex_no_geometry =
     \<lparr>cols = [(''name'', [StrV ''x'']), (''geometry'', [NaN])],
      index = [IntV 0], crs = None\<rparr>"

definition ex_plain :: "(int \<times> int) egdf" where
  "ex_plain = init [PointT] []"

definition ex_lines_self :: "(int \<times> int) egdf" where
  "ex_lines_self = init [LineStringT] [''code'']"

definition ex_layer :: "string list \<Rightarrow> int list \<Rightarrow> (int \<times> int) frame" where
  \<comment> \<open>a layer of points: the branch and the order index of every row; row i lies at (i, 0)\<close>
  "ex_layer branches orders =
     \<lparr>cols = [(''Code'', map StrV branches),
              (''volgnr'', map IntV orders),
              (''geometry'', map (\<lambda>i. GeomV (Point (int i, 0))) [0..<length branches])],
      index = map (\<lambda>i. IntV (int i)) [0..<length branches], crs = None\<rparr>"

definition ex_lower :: "string \<Rightarrow> string" where
  \<comment> \<open>\<open>str.lower\<close> on the letters A to Z\<close>
  "ex_lower s =
     map (\<lambda>c. case map_of (zip ''ABCDEFGHIJKLMNOPQRSTUVWXYZ'' ''abcdefghijklmnopqrstuvwxyz'') c of
                 None \<Rightarrow> c
               | Some d \<Rightarrow> d) s"

definition ex_nan_sort :: "int option list \<Rightarrow> int option list" where
  \<comment> \<open>\<open>list.sort\<close> on [1, NaN, 2]: no element is below its left neighbour, nothing moves\<close>
  "ex_nan_sort xs = xs"

definition ex_layer_cells :: "string list \<Rightarrow> (int \<times> int) val list \<Rightarrow> (int \<times> int) frame" where
  \<comment> \<open>as \<open>ex_layer\<close>, with the cells of the order column given\<close>
  "ex_layer_cells branches cells =
     \<lparr>cols = [(''Code'', map StrV branches),
              (''volgnr'', cells),
              (''geometry'', map (\<lambda>i. GeomV (Point (int i, 0))) [0..<length branches])],
      index = map (\<lambda>i. IntV (int i)) [0..<length branches], crs = None\<rparr>"

section \<open>Properties of \<open>set_data\<close>\<close>

lemma check_columns_loop_iff:
  "check_columns_loop present req = (if set req \<subseteq> set present then None else Some KeyError)"
  by (induction req) auto

lemma setitem_error: "setitem c vs s = Inl e \<Longrightarrow> e = ValueError"
  unfolding setitem_def Let_def by (simp split: if_splits)

lemma copy_content_error:
  "fst (copy_content g al s) = None \<or> fst (copy_content g al s) = Some ValueError"
proof (induction al arbitrary: s)
  case Nil
  then show ?case by simp
next
  case (Cons a al)
  obtain c vs where a: "a = (c, vs)" by (cases a)
  show ?case
  proof (cases "setitem c vs s")
    case (Inl e)
    then have "e = ValueError" by (rule setitem_error)
    with Inl a show ?thesis by simp
  next
    case (Inr s')
    with a Cons.IH [of "if c = ''geometry'' \<and> g \<noteq> None then s'\<lparr>crs := g\<rparr> else s'"] show ?thesis by simp
  qed
qed

lemma length_index_reindex:
  "index F = [] \<or> length (index F) = n \<Longrightarrow> length (index (reindex n F)) = n"
  unfolding reindex_def by (cases "index F = [] \<and> n \<noteq> 0") auto

lemma reindex_idem: "length (index F) = n \<Longrightarrow> reindex n F = F"
  unfolding reindex_def by (cases "n = 0") auto

lemma setitem_ok:
  assumes "length vs = n" and "index F = [] \<or> length (index F) = n"
  shows "setitem c vs F = Inr ((reindex n F)\<lparr>cols := AList.update c vs (cols (reindex n F))\<rparr>)"
proof -
  have "length (index (reindex n F)) = n"
    using assms(2) by (rule length_index_reindex)
  then show ?thesis
    unfolding setitem_def Let_def using assms(1) by simp
qed


lemma copy_content_ok:
  assumes "list_all (\<lambda>(c, vs). length vs = n) al"
    and "index s = [] \<or> length (index s) = n"
    and "al \<noteq> []"
  shows "copy_content g al s =
           (None, (reindex n s)\<lparr>cols := fold (\<lambda>(c, vs). AList.update c vs) al (cols (reindex n s)),
                                 crs := (if ''geometry'' \<in> fst ` set al \<and> g \<noteq> None then g else crs s)\<rparr>)"
  using assms
proof (induction al arbitrary: s)
  case Nil
  then show ?case by simp
next
  case (Cons a al)
  obtain c vs where a: "a = (c, vs)" by (cases a)
  from Cons.prems a have len: "length vs = n" and rest: "list_all (\<lambda>(c, vs). length vs = n) al"
    by auto
  let ?r = "reindex n s"
  let ?s' = "?r\<lparr>cols := AList.update c vs (cols ?r)\<rparr>"
  let ?s'' = "if c = ''geometry'' \<and> g \<noteq> None then ?s'\<lparr>crs := g\<rparr> else ?s'"
  have step: "setitem c vs s = Inr ?s'"
    using setitem_ok [OF len Cons.prems(2)] .
  have idx: "length (index ?s'') = n"
    using length_index_reindex [OF Cons.prems(2)] by simp
  have crs_r: "crs ?r = crs s" unfolding reindex_def by simp
  show ?case
  proof (cases "al = []")
    case True
    with a step crs_r show ?thesis by (simp del: not_None_eq)
  next
    case False
    have idem: "reindex n ?s'' = ?s''" using idx by (rule reindex_idem)
    have "copy_content g al ?s'' =
           (None, (reindex n ?s'')\<lparr>cols := fold (\<lambda>(c, vs). AList.update c vs) al (cols (reindex n ?s'')),
                     crs := (if ''geometry'' \<in> fst ` set al \<and> g \<noteq> None then g else crs ?s'')\<rparr>)"
      using idx by (intro Cons.IH [OF rest _ False]) simp
    then have "copy_content g al ?s'' =
           (None, ?s''\<lparr>cols := fold (\<lambda>(c, vs). AList.update c vs) al (cols ?s''),
                     crs := (if ''geometry'' \<in> fst ` set al \<and> g \<noteq> None then g else crs ?s'')\<rparr>)"
      unfolding idem .
    then show ?thesis using a step crs_r by (cases "c = ''geometry'' \<and> g \<noteq> None") auto
  qed
qed

lemma map_of_fold_update_notin:
  "c \<notin> fst ` set al \<Longrightarrow> map_of (fold (\<lambda>(c, vs). AList.update c vs) al bl) c = map_of bl c"
  by (induction al arbitrary: bl) (auto simp: update_conv')

lemma map_of_fold_update:
  "distinct (map fst al) \<Longrightarrow> (c, vs) \<in> set al \<Longrightarrow>
   map_of (fold (\<lambda>(c, vs). AList.update c vs) al bl) c = Some vs"
proof (induction al arbitrary: bl)
  case Nil
  then show ?case by simp
next
  case (Cons a al)
  obtain k w where a: "a = (k, w)" by (cases a)
  show ?case
  proof (cases "(c, vs) \<in> set al")
    case True
    have "distinct (map fst al)" using Cons.prems(1) by simp
    from Cons.IH [OF this True] a show ?thesis by simp
  next
    case False
    with Cons.prems a have eq: "k = c" "w = vs" by auto
    with Cons.prems a have "c \<notin> fst ` set al" by auto
    from map_of_fold_update_notin [OF this] eq a show ?thesis by (simp add: update_conv')
  qed
qed

lemma update_same_keys:
  "fst b = k \<Longrightarrow> k \<notin> fst ` set pre \<Longrightarrow> AList.update k v (pre @ b # bl) = pre @ (k, v) # bl"
  by (induction pre) (auto simp: update_conv')

lemma fold_update_same_keys:
  "distinct (map fst (pre @ al)) \<Longrightarrow> map fst bl = map fst al \<Longrightarrow>
   fold (\<lambda>(c, vs). AList.update c vs) al (pre @ bl) = pre @ al"
proof (induction al arbitrary: pre bl)
  case Nil
  then show ?case by simp
next
  case (Cons a al)
  obtain k w where a: "a = (k, w)" by (cases a)
  from Cons.prems(2) obtain b bl' where bl: "bl = b # bl'" and b: "fst b = k"
    and keys: "map fst bl' = map fst al"
    using a by (cases bl) auto
  have notin: "k \<notin> fst ` set pre" using Cons.prems(1) a by auto
  have d: "distinct (map fst ((pre @ [a]) @ al))" using Cons.prems(1) by simp
  have "fold (\<lambda>(c, vs). AList.update c vs) al ((pre @ [a]) @ bl') = (pre @ [a]) @ al"
    using Cons.IH [OF d keys] .
  then show ?case
    using a bl update_same_keys [OF b notin, of w bl'] by simp
qed

lemma delete_all_twice: "(if \<not> empty self then delete_all self else self) = delete_all self"
  unfolding delete_all_def by simp

lemma delete_all_fields:
  "required_columns (delete_all self) = required_columns self"
  "geotype (delete_all self) = geotype self"
  "crs (delete_all self) = crs self"
  unfolding delete_all_def by simp_all

lemma reindex_fields:
  "required_columns (reindex n self) = required_columns self"
  "geotype (reindex n self) = geotype self"
  "crs (reindex n self) = crs self"
  unfolding reindex_def by simp_all

lemma index_delete_all:
  assumes "cols self \<noteq> [] \<or> index self = [] \<or> length (index self) = n"
  shows "index (delete_all self) = [] \<or> length (index (delete_all self)) = n"
proof (cases "empty self")
  case True
  then have "delete_all self = self" unfolding delete_all_def by simp
  with True assms show ?thesis unfolding empty_def by auto
next
  case False
  then show ?thesis unfolding delete_all_def by simp
qed

lemma check_geotype_index: "check_geotype (s\<lparr>index := labels\<rparr>) = check_geotype s"
  unfolding check_geotype_def geometry_column_def by (simp split: option.splits)

lemma set_data_copied:
  assumes wf: "wf_frame gdf" and ne: "cols gdf \<noteq> []"
    and pre: "cols self \<noteq> [] \<or> index self = [] \<or> length (index self) = length (index gdf)"
  shows "\<exists>s2. copy_content (crs gdf) (cols gdf) (delete_all self) = (None, s2)
           \<and> length (index s2) = length (index gdf)
           \<and> (\<forall>labels. s2\<lparr>index := labels\<rparr> = (stored self gdf)\<lparr>index := labels\<rparr>)"
proof -
  let ?n = "length (index gdf)"
  let ?s1 = "delete_all self"
  let ?r = "reindex ?n ?s1"
  define s2 where "s2 = ?r\<lparr>cols := fold (\<lambda>(c, vs). AList.update c vs) (cols gdf) (cols ?r),
                crs := (if ''geometry'' \<in> fst ` set (cols gdf) \<and> crs gdf \<noteq> None
                        then crs gdf else crs ?s1)\<rparr>"
  have lens: "list_all (\<lambda>(c, vs). length vs = ?n) (cols gdf)"
    using wf unfolding wf_frame_def by simp
  have copy: "copy_content (crs gdf) (cols gdf) ?s1 = (None, s2)"
    unfolding s2_def using copy_content_ok [OF lens index_delete_all [OF pre] ne] .
  have "length (index ?r) = ?n"
    using index_delete_all [OF pre] by (rule length_index_reindex)
  then have len: "length (index s2) = ?n" unfolding s2_def by simp
  have "s2\<lparr>index := labels\<rparr> = (stored self gdf)\<lparr>index := labels\<rparr>" for labels
    unfolding s2_def stored_def Let_def columns_def
    by (simp add: delete_all_fields del: not_None_eq)
  with copy len show ?thesis by blast
qed

lemma set_data_ok_index:
  assumes wf: "wf_frame gdf" and ne: "cols gdf \<noteq> []"
    and pre: "cols self \<noteq> [] \<or> index self = [] \<or> length (index self) = length (index gdf)"
    and req: "cc \<Longrightarrow> set (required_columns self) \<subseteq> set (columns gdf)"
    and ic: "map_of (cols gdf) c = Some labels"
  shows "set_data self gdf (Some c) cc cg =
           ((if cg then check_geotype (stored self gdf) else None),
            (stored self gdf)\<lparr>index := labels\<rparr>)"
proof -
  have chk: "(if cc then check_columns (delete_all self) gdf else None) = None"
    using req by (simp add: check_columns_def check_columns_loop_iff delete_all_fields)
  from set_data_copied [OF wf ne pre] obtain s2
    where copy: "copy_content (crs gdf) (cols gdf) (delete_all self) = (None, s2)"
      and len: "length (index s2) = length (index gdf)"
      and st: "\<And>labels. s2\<lparr>index := labels\<rparr> = (stored self gdf)\<lparr>index := labels\<rparr>"
    by blast
  from ic have "(c, labels) \<in> set (cols gdf)" by (rule map_of_SomeD)
  with wf have "length labels = length (index gdf)"
    unfolding wf_frame_def by (auto simp: list_all_iff)
  with len have idx: "set_index labels s2 = (None, (stored self gdf)\<lparr>index := labels\<rparr>)"
    unfolding set_index_def by (simp add: st)
  show ?thesis
    unfolding set_data_def Let_def delete_all_twice chk
    by (simp add: copy ic idx check_geotype_index)
qed

lemma set_data_bad_index:
  assumes wf: "wf_frame gdf" and ne: "cols gdf \<noteq> []"
    and pre: "cols self \<noteq> [] \<or> index self = [] \<or> length (index self) = length (index gdf)"
    and req: "cc \<Longrightarrow> set (required_columns self) \<subseteq> set (columns gdf)"
    and ic: "map_of (cols gdf) c = None"
  shows "fst (set_data self gdf (Some c) cc cg) = Some KeyError
         \<and> cols (snd (set_data self gdf (Some c) cc cg)) = cols (stored self gdf)"
proof -
  have chk: "(if cc then check_columns (delete_all self) gdf else None) = None"
    using req by (simp add: check_columns_def check_columns_loop_iff delete_all_fields)
  from set_data_copied [OF wf ne pre] obtain s2
    where copy: "copy_content (crs gdf) (cols gdf) (delete_all self) = (None, s2)"
      and st: "\<And>labels. s2\<lparr>index := labels\<rparr> = (stored self gdf)\<lparr>index := labels\<rparr>"
    by blast
  have "cols (s2\<lparr>index := []\<rparr>) = cols ((stored self gdf)\<lparr>index := []\<rparr>)"
    unfolding st ..
  then have c2: "cols s2 = cols (stored self gdf)" by simp
  have "set_data self gdf (Some c) cc cg = (Some KeyError, s2)"
    unfolding set_data_def Let_def delete_all_twice chk
    by (simp add: copy ic)
  with c2 show ?thesis by simp
qed

lemma set_data_ok:
  assumes wf: "wf_frame gdf" and ne: "cols gdf \<noteq> []"
    and pre: "cols self \<noteq> [] \<or> index self = [] \<or> length (index self) = length (index gdf)"
    and req: "cc \<Longrightarrow> set (required_columns self) \<subseteq> set (columns gdf)"
  shows "set_data self gdf None cc cg =
           ((if cg then check_geotype (stored self gdf) else None), stored self gdf)"
proof -
  have chk: "(if cc then check_columns (delete_all self) gdf else None) = None"
    using req by (simp add: check_columns_def check_columns_loop_iff delete_all_fields)
  from set_data_copied [OF wf ne pre] obtain s2
    where copy: "copy_content (crs gdf) (cols gdf) (delete_all self) = (None, s2)"
      and len: "length (index s2) = length (index gdf)"
      and st: "\<And>labels. s2\<lparr>index := labels\<rparr> = (stored self gdf)\<lparr>index := labels\<rparr>"
    by blast
  have "(stored self gdf)\<lparr>index := index gdf\<rparr> = stored self gdf"
    unfolding stored_def Let_def by simp
  with len have idx: "set_index (index gdf) s2 = (None, stored self gdf)"
    unfolding set_index_def by (simp add: st)
  show ?thesis
    unfolding set_data_def Let_def delete_all_twice chk
    by (simp add: copy idx)
qed

lemma stored_lookup:
  "wf_frame gdf \<Longrightarrow> (c, vs) \<in> set (cols gdf) \<Longrightarrow> map_of (cols (stored self gdf)) c = Some vs"
  unfolding stored_def Let_def wf_frame_def columns_def
  by (simp add: map_of_fold_update)

lemma stored_fields:
  "index (stored self gdf) = index gdf"
  "required_columns (stored self gdf) = required_columns self"
  "geotype (stored self gdf) = geotype self"
  unfolding stored_def Let_def by (simp_all add: reindex_fields delete_all_fields)

lemma set_data_KeyError:
  "fst (set_data self gdf None True cg) = Some KeyError
     \<longleftrightarrow> \<not> set (required_columns self) \<subseteq> set (columns gdf)"
proof (cases "set (required_columns self) \<subseteq> set (columns gdf)")
  case False
  then have "check_columns (delete_all self) gdf = Some KeyError"
    by (simp add: check_columns_def check_columns_loop_iff delete_all_fields)
  with False show ?thesis
    unfolding set_data_def Let_def delete_all_twice by simp
next
  case True
  then have chk: "check_columns (delete_all self) gdf = None"
    by (simp add: check_columns_def check_columns_loop_iff delete_all_fields)
  obtain e2 s2 where c: "copy_content (crs gdf) (cols gdf) (delete_all self) = (e2, s2)"
    by (cases "copy_content (crs gdf) (cols gdf) (delete_all self)")
  have e2: "e2 = None \<or> e2 = Some ValueError"
    using copy_content_error [of "crs gdf" "cols gdf" "delete_all self"] c by simp
  have "fst (set_data self gdf None True cg) \<noteq> Some KeyError"
    unfolding set_data_def Let_def delete_all_twice
    using e2 by (auto simp: chk c set_index_def check_geotype_def split: option.splits)
  with True show ?thesis by simp
qed

section \<open>Required-column enforcement (claim C3)\<close>

text \<open>
  Claim C3 as stated fails for an index column that the input does not have: every
  required column is present, and \<open>self.index = gdf[index_col]\<close> raises KeyError
  after the content was copied.
\<close>

theorem set_data_absent_index_col_counterexample:
  "set (required_columns ex_self) \<subseteq> set (columns ex_points)
   \<and> fst (set_data ex_self ex_points (Some ''name'') True True) = Some KeyError"
  by code_simp

text \<open>
  Claim C3, as amended. \<open>set_data\<close> with \<open>check_columns=True\<close> raises KeyError if
  and only if a required column of the instance is absent from the columns of the input
  dataframe or \<open>index_col\<close> names a column that the input does not have (a missing
  required column raises KeyError whatever the input; the input is otherwise a
  well-formed frame with at least one column). When every required column is present
  the column check raises nothing, and with \<open>index_col\<close> left out or naming a column of
  the input the data is stored: every column of the input is a column of the instance
  with the same values, under the input's index or the labels of the index column. The
  geometry-type check runs after the data is stored, so its outcome is the only error
  left.
\<close>

theorem set_data_required_columns:
  "(fst (set_data self gdf None True cg) = Some KeyError
      \<longleftrightarrow> (\<exists>c \<in> set (required_columns self). c \<notin> set (columns gdf)))
   \<and> ((\<exists>c \<in> set (required_columns self). c \<notin> set (columns gdf))
        \<longrightarrow> fst (set_data self gdf ic True cg) = Some KeyError)
   \<and> (set (required_columns self) \<subseteq> set (columns gdf) \<longrightarrow> check_columns self gdf = None)
   \<and> (wf_frame gdf \<and> cols gdf \<noteq> []
        \<and> (cols self \<noteq> [] \<or> index self = [] \<or> length (index self) = length (index gdf))
        \<longrightarrow>
          (fst (set_data self gdf ic True cg) = Some KeyError
             \<longleftrightarrow> (\<exists>c \<in> set (required_columns self). c \<notin> set (columns gdf))
                 \<or> (\<exists>c. ic = Some c \<and> c \<notin> set (columns gdf)))
        \<and> (set (required_columns self) \<subseteq> set (columns gdf)
             \<and> (ic = None \<or> (\<exists>c. ic = Some c \<and> c \<in> set (columns gdf)))
            \<longrightarrow> fst (set_data self gdf ic True cg)
                  = (if cg then check_geotype (snd (set_data self gdf ic True cg)) else None)
              \<and> (ic = None \<longrightarrow> index (snd (set_data self gdf ic True cg)) = index gdf)
              \<and> (\<forall>c. ic = Some c \<longrightarrow>
                    Some (index (snd (set_data self gdf ic True cg))) = map_of (cols gdf) c)
              \<and> (\<forall>(c, vs) \<in> set (cols gdf).
                    map_of (cols (snd (set_data self gdf ic True cg))) c = Some vs)))"
proof -
  let ?missing = "\<exists>c \<in> set (required_columns self). c \<notin> set (columns gdf)"
  have iff: "?missing \<longleftrightarrow> \<not> set (required_columns self) \<subseteq> set (columns gdf)"
    by auto
  have a: "fst (set_data self gdf None True cg) = Some KeyError \<longleftrightarrow> ?missing"
    unfolding iff by (rule set_data_KeyError)
  have b: "fst (set_data self gdf ic True cg) = Some KeyError" if "?missing" for ic
  proof -
    from that have "check_columns (delete_all self) gdf = Some KeyError"
      unfolding iff by (simp add: check_columns_def check_columns_loop_iff delete_all_fields)
    then show ?thesis
      unfolding set_data_def Let_def delete_all_twice by simp
  qed
  have c: "check_columns self gdf = None" if "set (required_columns self) \<subseteq> set (columns gdf)"
    using that by (simp add: check_columns_def check_columns_loop_iff)
  have d: "(fst (set_data self gdf ic True cg) = Some KeyError
             \<longleftrightarrow> ?missing \<or> (\<exists>c. ic = Some c \<and> c \<notin> set (columns gdf)))
        \<and> (set (required_columns self) \<subseteq> set (columns gdf)
             \<and> (ic = None \<or> (\<exists>c. ic = Some c \<and> c \<in> set (columns gdf)))
            \<longrightarrow> fst (set_data self gdf ic True cg)
                  = (if cg then check_geotype (snd (set_data self gdf ic True cg)) else None)
              \<and> (ic = None \<longrightarrow> index (snd (set_data self gdf ic True cg)) = index gdf)
              \<and> (\<forall>c. ic = Some c \<longrightarrow>
                    Some (index (snd (set_data self gdf ic True cg))) = map_of (cols gdf) c)
              \<and> (\<forall>(c, vs) \<in> set (cols gdf).
                    map_of (cols (snd (set_data self gdf ic True cg))) c = Some vs))"
    if h: "wf_frame gdf \<and> cols gdf \<noteq> []
        \<and> (cols self \<noteq> [] \<or> index self = [] \<or> length (index self) = length (index gdf))"
  proof (cases ?missing)
    case True
    then have "\<not> set (required_columns self) \<subseteq> set (columns gdf)" unfolding iff .
    with b [OF True] True show ?thesis by simp
  next
    case False
    then have req: "set (required_columns self) \<subseteq> set (columns gdf)" unfolding iff by simp
    from h have wf: "wf_frame gdf" and ne: "cols gdf \<noteq> []"
      and pre: "cols self \<noteq> [] \<or> index self = [] \<or> length (index self) = length (index gdf)"
      by simp_all
    show ?thesis
    proof (cases ic)
      case None
      have eq: "set_data self gdf None True cg =
           ((if cg then check_geotype (stored self gdf) else None), stored self gdf)"
        using wf ne pre req by (rule set_data_ok)
      have ne': "(if cg then check_geotype (stored self gdf) else None) \<noteq> Some KeyError"
        by (simp add: check_geotype_def split: option.splits)
      show ?thesis
        unfolding None eq using wf False ne' by (auto simp: stored_fields stored_lookup)
    next
      case (Some c)
      show ?thesis
      proof (cases "map_of (cols gdf) c")
        case None
        then have nin: "c \<notin> set (columns gdf)"
          unfolding columns_def by (simp add: map_of_eq_None_iff)
        from set_data_bad_index [OF wf ne pre req None, of True cg]
        have "fst (set_data self gdf (Some c) True cg) = Some KeyError" by simp
        with nin False show ?thesis unfolding Some by simp
      next
        case labels: (Some labels)
        then have cin: "c \<in> set (columns gdf)"
          unfolding columns_def by (metis map_of_eq_None_iff option.distinct(1) set_map)
        have eq: "set_data self gdf (Some c) True cg =
           ((if cg then check_geotype (stored self gdf) else None),
            (stored self gdf)\<lparr>index := labels\<rparr>)"
          using wf ne pre req labels by (rule set_data_ok_index)
        have ne': "(if cg then check_geotype (stored self gdf) else None) \<noteq> Some KeyError"
          by (simp add: check_geotype_def split: option.splits)
        show ?thesis
          unfolding Some eq using wf False ne' cin labels
          by (auto simp: stored_lookup check_geotype_index)
      qed
    qed
  qed
  from a b c d show ?thesis by blast
qed

theorem set_data_required_columns_witness:
  "fst (set_data ex_self ex_points None True True) = None
   \<and> map_of (cols (snd (set_data ex_self ex_points None True True))) ''code''
       = Some [StrV ''a'', StrV ''b'']
   \<and> index (snd (set_data ex_self ex_points None True True)) = [IntV 0, IntV 1]
   \<and> fst (set_data ex_self ex_nocode None True True) = Some KeyError
   \<and> fst (set_data ex_self ex_points (Some ''name'') True True) = Some KeyError
   \<and> Some (index (snd (set_data ex_self ex_points (Some ''code'') True True)))
       = Some [StrV ''a'', StrV ''b'']"
proof -
  have req: "set (required_columns ex_self) \<subseteq> set (columns ex_points)"
    by (simp add: ex_self_def ex_points_def init_def columns_def)
  have h: "wf_frame ex_points \<and> cols ex_points \<noteq> []
        \<and> (cols ex_self \<noteq> [] \<or> index ex_self = []
            \<or> length (index ex_self) = length (index ex_points))"
    by (simp add: wf_frame_def ex_points_def columns_def ex_self_def init_def)
  have mem: "(''code'', [StrV ''a'', StrV ''b'']) \<in> set (cols ex_points)"
    by (simp add: ex_points_def)
  have miss: "\<exists>c \<in> set (required_columns ex_self). c \<notin> set (columns ex_nocode)"
    by (simp add: ex_self_def ex_nocode_def init_def columns_def)
  have geo: "check_geotype (snd (set_data ex_self ex_points None True True)) = None"
    by code_simp
  have bad: "\<exists>c. Some ''name'' = Some c \<and> c \<notin> set (columns ex_points)"
    by (simp add: ex_points_def columns_def)
  have good: "Some ''code'' = None \<or> (\<exists>c. Some ''code'' = Some c \<and> c \<in> set (columns ex_points))"
    by (simp add: ex_points_def columns_def)
  have lab: "map_of (cols ex_points) ''code'' = Some [StrV ''a'', StrV ''b'']"
    by (simp add: ex_points_def)
  note t = set_data_required_columns
  note d1 = t [of ex_self ex_points True None, THEN conjunct2, THEN conjunct2, THEN conjunct2,
      rule_format, OF h, THEN conjunct2, rule_format]
  note d2 = t [of ex_self ex_points True "Some ''name''", THEN conjunct2, THEN conjunct2,
      THEN conjunct2, rule_format, OF h, THEN conjunct1]
  note d3 = t [of ex_self ex_points True "Some ''code''", THEN conjunct2, THEN conjunct2,
      THEN conjunct2, rule_format, OF h, THEN conjunct2, rule_format]
  note k = t [of ex_self ex_nocode True None, THEN conjunct2, THEN conjunct1, rule_format, OF miss]
  have s1: "fst (set_data ex_self ex_points None True True) = None"
    using d1 req geo by simp
  have s2: "index (snd (set_data ex_self ex_points None True True)) = index ex_points"
    using d1 req by simp
  have s3: "map_of (cols (snd (set_data ex_self ex_points None True True))) ''code''
       = Some [StrV ''a'', StrV ''b'']"
    using d1 req mem by auto
  have s4: "fst (set_data ex_self ex_points (Some ''name'') True True) = Some KeyError"
    using d2 bad by simp
  have s5: "Some (index (snd (set_data ex_self ex_points (Some ''code'') True True)))
       = Some [StrV ''a'', StrV ''b'']"
    using d3 req good lab by simp
  from s1 s2 s3 s4 s5 k show ?thesis by (simp add: ex_points_def)
qed

section \<open>Geometry-type enforcement (claim C4)\<close>

text \<open>
  Claim C4 as stated fails for an index column that the input does not have: the
  geometry of the input, a LineString where the instance wants Points, is stored, and
  KeyError is raised by \<open>self.index = gdf[index_col]\<close> before the geometry types are
  checked.
\<close>

theorem set_data_geotype_absent_index_col_counterexample:
  "geometry_column (snd (set_data ex_self ex_nocode (Some ''missing'') False True))
     = Some [GeomV (LineString [(0, 0), (1, 1)])]
   \<and> \<not> isinstance (GeomV (LineString [(0, 0), (1, 1 :: int)]) :: (int \<times> int) val)
                    (geotype ex_self)
   \<and> fst (set_data ex_self ex_nocode (Some ''missing'') False True) = Some KeyError"
  by code_simp

text \<open>
  Claim C4, as amended. \<open>set_data\<close> with \<open>check_geotype=True\<close> stores the geometries
  of the input and, with \<open>index_col\<close> left out or naming a column of the input, raises
  TypeError if and only if a stored geometry is not an instance of the instance's
  \<open>geotype\<close>; when every geometry matches, nothing is raised. With an
  \<open>index_col\<close> that names no column of the input KeyError is raised instead, after
  the geometries are stored. The input is a well-formed frame with a geometry column and
  the column check (when asked for) passes.
\<close>

theorem set_data_geotype:
  assumes wf: "wf_frame gdf" and geo: "geometry_column gdf = Some geos"
    and pre: "cols self \<noteq> [] \<or> index self = [] \<or> length (index self) = length (index gdf)"
    and req: "cc \<longrightarrow> set (required_columns self) \<subseteq> set (columns gdf)"
  shows "geometry_column (snd (set_data self gdf ic cc True)) = Some geos
         \<and> (ic = None \<or> (\<exists>c. ic = Some c \<and> c \<in> set (columns gdf))
              \<longrightarrow> (fst (set_data self gdf ic cc True) = Some TypeError
                     \<longleftrightarrow> (\<exists>g \<in> set geos. \<not> isinstance g (geotype self)))
                 \<and> ((\<forall>g \<in> set geos. isinstance g (geotype self))
                     \<longrightarrow> fst (set_data self gdf ic cc True) = None))
         \<and> ((\<exists>c. ic = Some c \<and> c \<notin> set (columns gdf))
              \<longrightarrow> fst (set_data self gdf ic cc True) = Some KeyError)"
proof -
  from geo have mem: "(''geometry'', geos) \<in> set (cols gdf)"
    unfolding geometry_column_def by (rule map_of_SomeD)
  then have ne: "cols gdf \<noteq> []" by auto
  from req have req': "cc \<Longrightarrow> set (required_columns self) \<subseteq> set (columns gdf)" by simp
  have col: "geometry_column (stored self gdf) = Some geos"
    unfolding geometry_column_def using wf mem by (rule stored_lookup)
  have chk: "check_geotype (stored self gdf) =
      (if \<not> list_all (\<lambda>g. isinstance g (geotype self)) geos then Some TypeError else None)"
    unfolding check_geotype_def col by (simp add: stored_fields)
  show ?thesis
  proof (cases ic)
    case None
    have eq: "set_data self gdf None cc True =
           (check_geotype (stored self gdf), stored self gdf)"
      using set_data_ok [OF wf ne pre req', of cc True] by simp
    show ?thesis unfolding None eq by (simp add: col chk list_all_iff)
  next
    case (Some c)
    show ?thesis
    proof (cases "map_of (cols gdf) c")
      case None
      then have nin: "c \<notin> set (columns gdf)"
        unfolding columns_def by (simp add: map_of_eq_None_iff)
      from set_data_bad_index [OF wf ne pre req' None, of cc True]
      have k: "fst (set_data self gdf (Some c) cc True) = Some KeyError"
        and s: "cols (snd (set_data self gdf (Some c) cc True)) = cols (stored self gdf)"
        by simp_all
      have "geometry_column (snd (set_data self gdf (Some c) cc True)) = Some geos"
        using col unfolding geometry_column_def s .
      with k nin show ?thesis unfolding Some by simp
    next
      case labels: (Some labels)
      then have cin: "c \<in> set (columns gdf)"
        unfolding columns_def by (metis map_of_eq_None_iff option.distinct(1) set_map)
      have eq: "set_data self gdf (Some c) cc True =
           (check_geotype (stored self gdf), (stored self gdf)\<lparr>index := labels\<rparr>)"
        using set_data_ok_index [OF wf ne pre req' labels, of cc True] by simp
      have col': "geometry_column ((stored self gdf)\<lparr>index := labels\<rparr>) = Some geos"
        using col unfolding geometry_column_def by simp
      show ?thesis unfolding Some eq using cin by (simp add: col' chk list_all_iff)
    qed
  qed
qed

theorem set_data_geotype_witness:
  "fst (set_data ex_self ex_points None True True) = None
   \<and> fst (set_data ex_self ex_nocode None False True) = Some TypeError
   \<and> fst (set_data ex_self ex_nocode (Some ''name'') False True) = Some TypeError
   \<and> fst (set_data ex_self ex_nocode (Some ''missing'') False True) = Some KeyError"
proof -
  have wf: "wf_frame ex_points" "wf_frame ex_nocode"
    by (simp_all add: wf_frame_def ex_points_def ex_nocode_def columns_def)
  have geo: "geometry_column ex_points = Some [GeomV (Point (0, 0)), GeomV (Point (1, 1))]"
    "geometry_column ex_nocode = Some [GeomV (LineString [(0, 0), (1, 1)])]"
    by (simp_all add: geometry_column_def ex_points_def ex_nocode_def)
  have pre: "cols ex_self \<noteq> [] \<or> index ex_self = []
             \<or> length (index ex_self) = length (index ex_points)"
    "cols ex_self \<noteq> [] \<or> index ex_self = []
             \<or> length (index ex_self) = length (index ex_nocode)"
    by (simp_all add: ex_self_def init_def)
  have req: "True \<longrightarrow> set (required_columns ex_self) \<subseteq> set (columns ex_points)"
    by (simp add: ex_self_def ex_points_def init_def columns_def)
  have nreq: "False \<longrightarrow> set (required_columns ex_self) \<subseteq> set (columns ex_nocode)"
    by simp
  have gt: "geotype ex_self = [PointT]" by (simp add: ex_self_def init_def)
  have cn: "''name'' \<in> set (columns ex_nocode)" "''missing'' \<notin> set (columns ex_nocode)"
    by (simp_all add: ex_nocode_def columns_def)
  note a = set_data_geotype [OF wf(1) geo(1) pre(1) req, of None, THEN conjunct2, THEN conjunct1]
  note b = set_data_geotype [OF wf(2) geo(2) pre(2) nreq, of None, THEN conjunct2, THEN conjunct1]
  note c = set_data_geotype [OF wf(2) geo(2) pre(2) nreq, of "Some ''name''", THEN conjunct2,
      THEN conjunct1]
  note d = set_data_geotype [OF wf(2) geo(2) pre(2) nreq, of "Some ''missing''", THEN conjunct2,
      THEN conjunct2]
  have s1: "fst (set_data ex_self ex_points None True True) = None" using a gt by simp
  have s2: "fst (set_data ex_self ex_nocode None False True) = Some TypeError" using b gt by simp
  have s3: "fst (set_data ex_self ex_nocode (Some ''name'') False True) = Some TypeError"
    using c gt cn(1) by simp
  have s4: "fst (set_data ex_self ex_nocode (Some ''missing'') False True) = Some KeyError"
    using d cn(2) by simp
  from s1 s2 s3 s4 show ?thesis by simp
qed

section \<open>Spatial clipping (claim C5)\<close>

lemma length_select:
  "length xs = length ys \<Longrightarrow> length (select m xs) = length (select m ys)"
proof (induction m arbitrary: xs ys)
  case Nil
  then show ?case by (simp add: select_def)
next
  case (Cons b m)
  show ?case
  proof (cases xs)
    case Nil
    with Cons.prems show ?thesis by (simp add: select_def)
  next
    case (Cons x xs')
    with Cons.prems obtain y ys' where ys: "ys = y # ys'" and len: "length xs' = length ys'"
      by (cases ys) auto
    from Cons.IH [OF len] Cons ys show ?thesis by (simp add: select_def)
  qed
qed

lemma select_all_False:
  "list_all (\<lambda>b. \<not> b) m \<Longrightarrow> select m xs = []"
  by (induction m arbitrary: xs) (auto simp: select_def split: list.splits simp: zip_Cons1)

lemma select_nonempty:
  "length m = length xs \<Longrightarrow> list_ex (\<lambda>b. b) m \<Longrightarrow> select m xs \<noteq> []"
proof (induction m arbitrary: xs)
  case Nil
  then show ?case by simp
next
  case (Cons b m)
  then obtain x xs' where xs: "xs = x # xs'" and len: "length m = length xs'"
    by (cases xs) auto
  show ?case
  proof (cases b)
    case True
    with xs show ?thesis by (simp add: select_def)
  next
    case False
    with Cons.prems(2) have "list_ex (\<lambda>b. b) m" by simp
    from Cons.IH [OF len this] False xs show ?thesis by (simp add: select_def)
  qed
qed

lemma wf_loc_mask: "wf_frame F \<Longrightarrow> wf_frame (loc_mask m F)"
  unfolding wf_frame_def loc_mask_def columns_def
  by (auto simp: list_all_iff comp_def case_prod_unfold intro: length_select)

lemma stored_same_columns:
  assumes wf: "wf_frame gdf" and keys: "columns gdf = columns self"
  shows "cols (stored self gdf) = cols gdf"
proof -
  let ?r = "reindex (length (index gdf)) (delete_all self)"
  have "map fst (cols ?r) = map fst (cols self)"
    unfolding reindex_def delete_all_def by (simp add: comp_def case_prod_unfold)
  then have k: "map fst (cols ?r) = map fst (cols gdf)"
    using keys unfolding columns_def by simp
  have d: "distinct (map fst ([] @ cols gdf))"
    using wf unfolding wf_frame_def columns_def by simp
  have "fold (\<lambda>(c, vs). AList.update c vs) (cols gdf) ([] @ cols ?r) = [] @ cols gdf"
    using d k by (rule fold_update_same_keys)
  then show ?thesis unfolding stored_def Let_def by simp
qed

lemma select_map_filter: "select (map P xs) xs = filter P xs"
  by (induction xs) (simp_all add: select_def)

lemma geometry_column_loc_mask:
  "geometry_column F = Some geos \<Longrightarrow> geometry_column (loc_mask keep F) = Some (select keep geos)"
  unfolding geometry_column_def loc_mask_def by (simp add: map_of_map)

text \<open>
  Claim C5. \<open>clip\<close> raises TypeError when its argument is neither a Polygon nor a
  MultiPolygon. Otherwise it raises ValueError when no feature intersects the clip
  geometry, and else it retains exactly the features whose geometry intersects it: every
  column and the index keep the rows of the intersecting features, in their order. The
  instance is a well-formed frame with a geometry column that has its required columns
  (as \<open>__init__\<close> and \<open>set_data\<close> leave it); the geometry-type check of the
  final \<open>set_data\<close> runs after the features are stored.
\<close>

theorem clip_retains_intersecting:
  "(\<not> isinstance geometry [PolygonT, MultiPolygonT]
      \<longrightarrow> clip isect self geometry = (Some TypeError, self))
   \<and> (isinstance geometry [PolygonT, MultiPolygonT] \<and> geometry_column self = Some geos
        \<and> \<not> list_ex (\<lambda>g. isect g geometry) geos
      \<longrightarrow> clip isect self geometry = (Some ValueError, self))
   \<and> (isinstance geometry [PolygonT, MultiPolygonT] \<and> geometry_column self = Some geos
        \<and> list_ex (\<lambda>g. isect g geometry) geos
        \<and> wf_frame self \<and> set (required_columns self) \<subseteq> set (columns self)
      \<longrightarrow> cols (snd (clip isect self geometry))
            = map (\<lambda>(c, vs). (c, select (map (\<lambda>g. isect g geometry) geos) vs)) (cols self)
          \<and> index (snd (clip isect self geometry))
            = select (map (\<lambda>g. isect g geometry) geos) (index self)
          \<and> geometry_column (snd (clip isect self geometry))
            = Some (filter (\<lambda>g. isect g geometry) geos)
          \<and> fst (clip isect self geometry)
            = (if list_all (\<lambda>g. isinstance g (geotype self)) (filter (\<lambda>g. isect g geometry) geos)
               then None else Some TypeError))"
proof -
  let ?keep = "map (\<lambda>g. isect g geometry) geos"
  let ?gdf = "loc_mask ?keep self"
  have a: "clip isect self geometry = (Some TypeError, self)"
    if "\<not> isinstance geometry [PolygonT, MultiPolygonT]"
    using that unfolding clip_def by simp
  have b: "clip isect self geometry = (Some ValueError, self)"
    if h: "isinstance geometry [PolygonT, MultiPolygonT] \<and> geometry_column self = Some geos
        \<and> \<not> list_ex (\<lambda>g. isect g geometry) geos"
  proof -
    from h have "list_all (\<lambda>b. \<not> b) ?keep"
      by (simp add: list_all_iff list_ex_iff)
    then have "select ?keep (index self) = []" by (rule select_all_False)
    then have "empty ?gdf" unfolding empty_def loc_mask_def by simp
    with h show ?thesis unfolding clip_def Let_def by simp
  qed
  have c: "cols (snd (clip isect self geometry))
            = map (\<lambda>(c, vs). (c, select ?keep vs)) (cols self)
          \<and> index (snd (clip isect self geometry)) = select ?keep (index self)
          \<and> geometry_column (snd (clip isect self geometry))
            = Some (filter (\<lambda>g. isect g geometry) geos)
          \<and> fst (clip isect self geometry)
            = (if list_all (\<lambda>g. isinstance g (geotype self)) (filter (\<lambda>g. isect g geometry) geos)
               then None else Some TypeError)"
    if h: "isinstance geometry [PolygonT, MultiPolygonT] \<and> geometry_column self = Some geos
        \<and> list_ex (\<lambda>g. isect g geometry) geos
        \<and> wf_frame self \<and> set (required_columns self) \<subseteq> set (columns self)"
  proof -
    from h have inst: "isinstance geometry [PolygonT, MultiPolygonT]"
      and geo: "geometry_column self = Some geos"
      and ex: "list_ex (\<lambda>b. b) ?keep"
      and wf: "wf_frame self" and req: "set (required_columns self) \<subseteq> set (columns self)"
      by (simp_all add: list_ex_iff)
    from geo have mem: "(''geometry'', geos) \<in> set (cols self)"
      unfolding geometry_column_def by (rule map_of_SomeD)
    then have ne: "cols self \<noteq> []" by auto
    from wf mem have "length geos = length (index self)"
      unfolding wf_frame_def by (auto simp: list_all_iff)
    then have "length ?keep = length (index self)" by simp
    from select_nonempty [OF this ex] have idx: "index ?gdf \<noteq> []"
      unfolding loc_mask_def by simp
    have ne': "cols ?gdf \<noteq> []" using ne unfolding loc_mask_def by simp
    have nonempty: "\<not> empty ?gdf" using idx ne' unfolding empty_def by simp
    have wf': "wf_frame ?gdf" using wf by (rule wf_loc_mask)
    have keys: "columns ?gdf = columns self"
      unfolding columns_def loc_mask_def by (simp add: comp_def case_prod_unfold)
    have pre: "cols self \<noteq> [] \<or> index self = [] \<or> length (index self) = length (index ?gdf)"
      using ne by simp
    have sd: "set_data self ?gdf None True True
              = (check_geotype (stored self ?gdf), stored self ?gdf)"
      using set_data_ok [OF wf' ne' pre, of True True] req keys by simp
    have cl: "clip isect self geometry = (check_geotype (stored self ?gdf), stored self ?gdf)"
      unfolding clip_def Let_def using inst geo nonempty sd by simp
    have st: "cols (stored self ?gdf) = cols ?gdf"
      using wf' keys by (rule stored_same_columns)
    have gc: "geometry_column (stored self ?gdf) = Some (filter (\<lambda>g. isect g geometry) geos)"
      using geometry_column_loc_mask [OF geo, of ?keep]
      unfolding geometry_column_def st by (simp add: select_map_filter)
    have chk: "check_geotype (stored self ?gdf)
            = (if list_all (\<lambda>g. isinstance g (geotype self)) (filter (\<lambda>g. isect g geometry) geos)
               then None else Some TypeError)"
      unfolding check_geotype_def gc by (simp add: stored_fields)
    show ?thesis
      unfolding cl using st gc chk by (simp add: stored_fields loc_mask_def)
  qed
  from a b c show ?thesis by blast
qed

theorem clip_retains_intersecting_witness:
  "clip ex_intersects ex_stored (GeomV (Point (0, 0))) = (Some TypeError, ex_stored)
   \<and> clip ex_intersects (ex_stored\<lparr>cols := [(''code'', [StrV ''b'']), (''geometry'', [GeomV (Point (5, 5))])],
                                   index := [IntV 1]\<rparr>) ex_box
       = (Some ValueError, ex_stored\<lparr>cols := [(''code'', [StrV ''b'']), (''geometry'', [GeomV (Point (5, 5))])],
                                     index := [IntV 1]\<rparr>)
   \<and> cols (snd (clip ex_intersects ex_stored ex_box))
       = [(''code'', [StrV ''a'']), (''geometry'', [GeomV (Point (0, 0))])]
   \<and> index (snd (clip ex_intersects ex_stored ex_box)) = [IntV 0]
   \<and> fst (clip ex_intersects ex_stored ex_box) = None"
proof -
  let ?far = "ex_stored\<lparr>cols := [(''code'', [StrV ''b'']), (''geometry'', [GeomV (Point (5, 5))])],
                          index := [IntV 1]\<rparr>"
  have wf: "wf_frame ex_stored"
    by (simp add: wf_frame_def ex_stored_def columns_def)
  have geo: "geometry_column ex_stored = Some [GeomV (Point (0, 0)), GeomV (Point (5, 5))]"
    by (simp add: geometry_column_def ex_stored_def)
  have geo2: "geometry_column ?far = Some [GeomV (Point (5, 5))]"
    by (simp add: geometry_column_def)
  have req: "set (required_columns ex_stored) \<subseteq> set (columns ex_stored)"
    by (simp add: ex_stored_def columns_def)
  have box: "isinstance ex_box [PolygonT, MultiPolygonT]" by (simp add: ex_box_def)
  have gt: "geotype ex_stored = [PointT]" by (simp add: ex_stored_def)
  have co: "cols ex_stored = [(''code'', [StrV ''a'', StrV ''b'']),
              (''geometry'', [GeomV (Point (0, 0)), GeomV (Point (5, 5))])]"
    "index ex_stored = [IntV 0, IntV 1]"
    by (simp_all add: ex_stored_def)
  show ?thesis
    using clip_retains_intersecting [of "GeomV (Point (0, 0))" ex_intersects ex_stored]
      clip_retains_intersecting [of ex_box ex_intersects ?far "[GeomV (Point (5, 5))]"]
      clip_retains_intersecting [of ex_box ex_intersects ex_stored
         "[GeomV (Point (0, 0)), GeomV (Point (5, 5))]"]
      wf geo geo2 req box gt
    by (simp add: co select_def)
qed

section \<open>Coordinate-reference-system normalization (claim C6)\<close>

text \<open>
  Claim C6 as stated fails on a dataframe that has no coordinate reference system: its
  reference system (none) differs from every target, \<open>to_crs\<close> is called and refuses
  geometries without a reference system, so ValueError is raised and nothing is
  reprojected.
\<close>

theorem check_projection_no_crs_counterexample:
  "Some ''EPSG:4326'' \<noteq> crs ex_nocrs
   \<and> check_projection ex_transform ex_nocrs ''EPSG:4326'' = (Some ValueError, ex_nocrs)"
  by (simp add: check_projection_def to_crs_def geometry_column_def ex_nocrs_def ex_stored_def)

text \<open>
  Claim C6, as amended. On a dataframe with a geometry column and a current coordinate
  reference system, \<open>check_projection\<close> reprojects the stored geometries to the target
  system exactly when the current one differs from the target: every coordinate of every
  geometry is transformed, the target becomes the reference system, and the other columns
  and the index stay as they are. When the current system already equals the target, the
  dataframe is left entirely unchanged.
\<close>

theorem check_projection_reprojects:
  assumes "geometry_column self = Some geos" and "crs self = Some c"
  shows "(c \<noteq> crs_out \<longrightarrow>
            check_projection tr self crs_out
              = (None, self\<lparr>cols := AList.update ''geometry''
                                       (map (map_val (tr c crs_out)) geos) (cols self),
                             crs := Some crs_out\<rparr>)
            \<and> geometry_column (snd (check_projection tr self crs_out))
                = Some (map (map_val (tr c crs_out)) geos)
            \<and> (\<forall>k. k \<noteq> ''geometry'' \<longrightarrow>
                  map_of (cols (snd (check_projection tr self crs_out))) k = map_of (cols self) k)
            \<and> index (snd (check_projection tr self crs_out)) = index self)
         \<and> (c = crs_out \<longrightarrow> check_projection tr self crs_out = (None, self))"
  using assms
  by (simp add: check_projection_def to_crs_def geometry_column_def update_conv')

theorem check_projection_reprojects_witness:
  "check_projection ex_transform ex_stored ''EPSG:28992'' = (None, ex_stored)
   \<and> geometry_column (snd (check_projection ex_transform ex_stored ''EPSG:4326''))
       = Some [GeomV (Point (100, 200)), GeomV (Point (105, 205))]
   \<and> crs (snd (check_projection ex_transform ex_stored ''EPSG:4326'')) = Some ''EPSG:4326''"
proof -
  have geo: "geometry_column ex_stored = Some [GeomV (Point (0, 0)), GeomV (Point (5, 5))]"
    by (simp add: geometry_column_def ex_stored_def)
  have c: "crs ex_stored = Some ''EPSG:28992''" by (simp add: ex_stored_def)
  have ne: "''EPSG:28992'' \<noteq> ''EPSG:4326''" by simp
  note same = check_projection_reprojects [OF geo c, of "''EPSG:28992''" ex_transform,
      THEN conjunct2, rule_format, OF refl]
  note other = check_projection_reprojects [OF geo c, of "''EPSG:4326''" ex_transform,
      THEN conjunct1, rule_format, OF ne]
  have g: "geometry_column (snd (check_projection ex_transform ex_stored ''EPSG:4326''))
       = Some [GeomV (Point (100, 200)), GeomV (Point (105, 205))]"
    using other [THEN conjunct2, THEN conjunct1] by simp
  have r: "crs (snd (check_projection ex_transform ex_stored ''EPSG:4326'')) = Some ''EPSG:4326''"
    unfolding other [THEN conjunct1] by simp
  from same g r show ?thesis by simp
qed

section \<open>Column merging (claim C8)\<close>





section \<open>Reading a shapefile (claims C7 and C9)\<close>

text \<open>
  Claim C7 says that a shapefile of single-part features, read without column mapping,
  filtering, clipping or reprojection, is stored with its identifier column unaltered.
  The code runs the splitting block for every file, so two single-part features that
  share the identifier \<open>a\<close> are stored as \<open>a_0\<close> and \<open>a_1\<close>, and \<open>a\<close> is printed
  as split into single parts.
\<close>

theorem read_shp_renames_shared_identifier:
  "read_shp ex_intersects ex_transform ex_self ex_shared_id None None True None None True
       ''code'' False None
     = (None, [StrV ''a''],
        \<lparr>cols = [(''code'', [StrV ''a_0'', StrV ''a_1'']),
                 (''geometry'', [GeomV (Point (0, 0)), GeomV (Point (1, 1))])],
         index = [IntV 0, IntV 1], crs = None,
         required_columns = [''code''], geotype = [PointT]\<rparr>)"
  by code_simp

text \<open>
  Claim C9 says that \<open>read_shp\<close> raises IOError when no row is left after the features
  without geometry are dropped. The splitting block runs first, for every file, and reads
  the identifier column: on a file without that column whose only feature has no
  geometry, KeyError is raised instead (the instance is left as it was).
\<close>

theorem read_shp_no_rows_without_identifier:
  "read_shp ex_intersects ex_transform ex_plain ex_no_geometry None None True None None True
       ''code'' False None
     = (Some KeyError, [], ex_plain)"
  by code_simp

section \<open>Grouping points to lines (claims C1, C2 and C10)\<close>

text \<open>
  Claim C10 says that a branch with exactly one point is left out of the stored
  features while the other branches are loaded. On a layer with the branch \<open>A\<close> of two
  points and the branch \<open>B\<close> of one point the code raises TypeError and stores nothing:
  the loop that is to set the order of the single points to 0 calls
  \<open>groupbyvalues.index(branch)\<close> on a pandas Series.
\<close>

theorem read_gpkg_layer_single_point_branch_raises:
  "read_gpkg_layer ex_intersects ex_lower ex_nan_sort ex_lines_self True (ex_layer [''A'', ''A'', ''B''] [1, 2, 1])
       None (Some ''code'') (Some ''volgnr'') ''code'' None True True None
     = (Some TypeError, [], ex_lines_self)"
  by code_simp

text \<open>
  Claim C1 says that every branch of at least two points with distinct order indices
  yields one LineString, also when its numbering does not start at 1. The start number
  of a branch is the minimum of its order indices and of the number of rows plus one: on
  a layer of two points of the branch \<open>A\<close> numbered 10 and 20 it is 3, no row has
  that order index, and no feature is stored.
\<close>

theorem read_gpkg_layer_drops_branch_starting_high:
  "read_gpkg_layer ex_intersects ex_lower ex_nan_sort ex_lines_self True (ex_layer [''A'', ''A''] [10, 20])
       None (Some ''code'') (Some ''volgnr'') ''code'' None True True None
     = (None, [],
        \<lparr>cols = [(''code'', []), (''volgnr'', []), (''geometry'', [])],
         index = [], crs = None, required_columns = [''code''], geotype = [LineStringT]\<rparr>)"
  by code_simp

lemma flagged_filter:
  "(if None \<in> set sl then filter (\<lambda>pt. pt \<noteq> None) sl else sl)
     = filter (\<lambda>pt. pt \<noteq> None) sl"
proof (cases "None \<in> set sl")
  case True
  then show ?thesis by (simp only: if_True)
next
  case False
  then have "filter (\<lambda>pt. pt \<noteq> None) sl = sl"
    unfolding filter_id_conv by metis
  with False show ?thesis by (simp only: if_False)
qed

lemma flagged_iff: "list_ex (\<lambda>pt. pt = None) sl \<longleftrightarrow> None \<in> set sl"
  unfolding list_ex_iff by metis

lemma group_lines_Slots:
  assumes "lines branch = Some (Slots sl)"
  shows "group_lines (branch # rest) lines
          = (case LineString_of (filter (\<lambda>pt. pt \<noteq> None) sl) of
               Inl e \<Rightarrow> ((if None \<in> set sl then [NotAssigned branch] else []), Some e,
                         lines(branch \<mapsto> Slots (filter (\<lambda>pt. pt \<noteq> None) sl)))
             | Inr g \<Rightarrow>
                (case group_lines rest (lines(branch \<mapsto> Line g)) of
                   (printed', e, lines') \<Rightarrow>
                     ((if None \<in> set sl then [NotAssigned branch] else []) @ printed', e, lines')))"
  unfolding group_lines.simps assms option.case entry.case Let_def flagged_iff flagged_filter
  by (rule refl)

lemma group_lines_step:
  assumes "lines branch = Some (Slots sl)"
    and "LineString_of (filter (\<lambda>pt. pt \<noteq> None) sl) = Inr g"
    and "group_lines rest (lines(branch \<mapsto> Line g)) = (printed', e, lines')"
  shows "group_lines (branch # rest) lines
           = ((if None \<in> set sl then [NotAssigned branch] else []) @ printed', e, lines')"
  unfolding group_lines_Slots [of lines branch sl rest, OF assms(1)] assms(2) by (simp add: assms(3))

lemma group_lines_stop:
  assumes "lines branch = Some (Slots sl)"
    and "LineString_of (filter (\<lambda>pt. pt \<noteq> None) sl) = Inl err"
  shows "group_lines (branch # rest) lines
           = ((if None \<in> set sl then [NotAssigned branch] else []), Some err,
              lines(branch \<mapsto> Slots (filter (\<lambda>pt. pt \<noteq> None) sl)))"
  unfolding group_lines_Slots [of lines branch sl rest, OF assms(1)] assms(2) by simp

lemma group_lines_frame:
  "b \<notin> set bs \<Longrightarrow> group_lines bs lines = (msgs, e, lines') \<Longrightarrow>
   lines' b = lines b \<and> NotAssigned b \<notin> set msgs"
proof (induction bs arbitrary: lines msgs e lines')
  case Nil
  then show ?case by simp
next
  case (Cons branch rest)
  from Cons.prems(1) have ne: "b \<noteq> branch" and notin: "b \<notin> set rest" by auto
  show ?case
  proof (cases "lines branch")
    case None
    with Cons.prems(2) show ?thesis by auto
  next
    case (Some en)
    show ?thesis
    proof (cases en)
      case (Line g)
      with Some Cons.prems(2) show ?thesis by auto
    next
      case (Slots sl)
      show ?thesis
      proof (cases "LineString_of (filter (\<lambda>pt. pt \<noteq> None) sl)")
        case (Inl err)
        have "group_lines (branch # rest) lines
                = ((if None \<in> set sl then [NotAssigned branch] else []), Some err,
                   lines(branch \<mapsto> Slots (filter (\<lambda>pt. pt \<noteq> None) sl)))"
          using Some Slots Inl group_lines_stop [of lines branch sl err rest] by simp
        with Cons.prems(2) ne show ?thesis by auto
      next
        case (Inr g)
        obtain m' e' l' where rec: "group_lines rest (lines(branch \<mapsto> Line g)) = (m', e', l')"
          by (cases "group_lines rest (lines(branch \<mapsto> Line g))")
        from group_lines_step [of lines branch sl g rest m' e' l', OF _ Inr rec] Some Slots
        have "group_lines (branch # rest) lines
                = ((if None \<in> set sl then [NotAssigned branch] else []) @ m', e', l')"
          by simp
        with Cons.prems(2)
        have eqs: "msgs = (if None \<in> set sl then [NotAssigned branch] else []) @ m'" "lines' = l'"
          by simp_all
        from Cons.IH [of "lines(branch \<mapsto> Line g)" m' e' l', OF notin rec] have "l' b = (lines(branch \<mapsto> Line g)) b"
          and "NotAssigned b \<notin> set m'"
          by simp_all
        with eqs ne show ?thesis by auto
      qed
    qed
  qed
qed

lemma accepted_upd: "b' \<noteq> branch \<Longrightarrow> accepted (lines(branch \<mapsto> en)) b' = accepted lines b'"
  by (simp add: accepted_def)

lemma group_lines_entry:
  "distinct (pre @ b # post) \<Longrightarrow> list_all (accepted lines) pre \<Longrightarrow>
   lines b = Some (Slots sl) \<Longrightarrow> LineString_of (filter (\<lambda>pt. pt \<noteq> None) sl) = Inr g \<Longrightarrow>
   group_lines (pre @ b # post) lines = (msgs, e, lines') \<Longrightarrow>
   lines' b = Some (Line g) \<and> (NotAssigned b \<in> set msgs \<longleftrightarrow> None \<in> set sl)"
proof (induction pre arbitrary: lines msgs e lines')
  case Nil
  then have notin: "b \<notin> set post" by simp
  obtain m' e' l' where rec: "group_lines post (lines(b \<mapsto> Line g)) = (m', e', l')"
    by (cases "group_lines post (lines(b \<mapsto> Line g))")
  from group_lines_step [of lines b sl g post m' e' l', OF Nil.prems(3) Nil.prems(4) rec] Nil.prems(5)
  have eqs: "msgs = (if None \<in> set sl then [NotAssigned b] else []) @ m'" "lines' = l'"
    by simp_all
  from group_lines_frame [of b post "lines(b \<mapsto> Line g)" m' e' l', OF notin rec]
  have "l' b = Some (Line g)" "NotAssigned b \<notin> set m'"
    by simp_all
  with eqs show ?case by auto
next
  case (Cons branch pre)
  from Cons.prems(1) have ne: "b \<noteq> branch" and d: "distinct (pre @ b # post)"
    and fresh: "branch \<notin> set pre"
    by auto
  from Cons.prems(2) have acc: "accepted lines branch" and rest: "list_all (accepted lines) pre"
    by simp_all
  from acc obtain sl' g' where sl': "lines branch = Some (Slots sl')"
    and g': "LineString_of (filter (\<lambda>pt. pt \<noteq> None) sl') = Inr g'"
    by (auto simp: accepted_def split: option.splits entry.splits sum.splits)
  let ?l = "lines(branch \<mapsto> Line g')"
  obtain m' e' l' where rec: "group_lines (pre @ b # post) ?l = (m', e', l')"
    by (cases "group_lines (pre @ b # post) ?l")
  from group_lines_step [of lines branch sl' g' "pre @ b # post" m' e' l', OF sl' g' rec]
    Cons.prems(5)
  have eqs: "msgs = (if None \<in> set sl' then [NotAssigned branch] else []) @ m'" "lines' = l'"
    by simp_all
  have "accepted ?l x" if "x \<in> set pre" for x
  proof -
    from that fresh have "x \<noteq> branch" by auto
    then have "accepted ?l x = accepted lines x" by (rule accepted_upd)
    with rest that show ?thesis by (simp add: list_all_iff)
  qed
  then have rest': "list_all (accepted ?l) pre" by (simp add: list_all_iff)
  have lb: "?l b = Some (Slots sl)" using Cons.prems(3) ne by simp
  from Cons.IH [of ?l m' e' l', OF d rest' lb Cons.prems(4) rec]
  have "l' b = Some (Line g)" "NotAssigned b \<in> set m' \<longleftrightarrow> None \<in> set sl"
    by simp_all
  with eqs ne show ?case by auto
qed

lemma np_unique_distinct: "np_unique vs = Inr branches \<Longrightarrow> distinct branches"
  by (auto simp: np_unique_def distinct_map inj_on_def split: if_splits)

lemma group_points_printed:
  assumes "gc \<in> set (columns layer)"
    and "geometry_column layer = Some (first # others)"
    and "isinstance first [PointT]"
    and "map_of (cols layer) gc = Some gvals"
    and "map_of (cols layer) oc = Some cells"
    and "order_values cells = Some order"
    and "np_unique gvals = Inr branches"
    and "assigned_lines nan_sort branches gvals order (first # others) = Inr lines1"
    and "group_lines (filter (\<lambda>br. \<not> count_list gvals br < 2) branches) lines1 = (msgs, e, lines2)"
  shows "fst (group_points nan_sort layer gc (Some oc)) = msgs"
proof -
  have "group_points nan_sort layer gc (Some oc) =
      (case e of
         Some err \<Rightarrow> (msgs, Inl err)
       | None \<Rightarrow>
          if list_ex (\<lambda>branch. count_list gvals branch < 2) branches
          then (msgs, Inl TypeError)
          else
           (let start = startnr (length (index layer)) gvals order;
                idx = map fst (filter (\<lambda>(nr, i, branch). py_eq i (start branch))
                         (enumerate 0 (zip order gvals)));
                fields = iloc idx layer
            in case line_geometries lines2 (map (\<lambda>i. gvals ! i) idx) of
                 Inl e \<Rightarrow> (msgs, Inl e)
               | Inr geometries \<Rightarrow>
                   (msgs, Inr (fields\<lparr>cols := AList.update ''geometry'' geometries
                                           (cols fields)\<rparr>))))"
    unfolding group_points_def
    by (simp only: assms if_False if_True not_True_eq_False not_not option.case list.case
        sum.case prod.case)
  then show ?thesis
    by (simp add: Let_def split: option.splits sum.splits)
qed

lemma read_gpkg_layer_printed:
  "\<exists>more. fst (snd (read_gpkg_layer isect lower nan_sort self True raw ic (Some gc) oc idc cm cc cg clipg))
            = fst (group_points nan_sort (lower_columns lower raw) gc oc) @ more"
proof -
  obtain printed r where gp: "group_points nan_sort (lower_columns lower raw) gc oc = (printed, r)"
    by (cases "group_points nan_sort (lower_columns lower raw) gc oc")
  show ?thesis
  proof (cases r)
    case (Inl err)
    then show ?thesis by (simp add: read_gpkg_layer_def gp)
  next
    case (Inr gdf0)
    let ?gdf1 = "rename_columns cm gdf0"
    show ?thesis
    proof (cases "geometry_column ?gdf1")
      case None
      then show ?thesis by (simp add: read_gpkg_layer_def gp Inr)
    next
      case (Some geos)
      obtain split r2 where sp:
        "(if list_ex (\<lambda>g. isinstance g [MultiPolygonT]) geos
          then split_parts idc ?gdf1 else ([], Inr ?gdf1)) = (split, r2)"
        by (cases "if list_ex (\<lambda>g. isinstance g [MultiPolygonT]) geos
          then split_parts idc ?gdf1 else ([], Inr ?gdf1)")
      show ?thesis
      proof (cases r2)
        case (Inl err)
        then show ?thesis by (simp add: read_gpkg_layer_def gp Inr Some sp)
      next
        case r2: (Inr gdf2)
        obtain e1 s1 where sd: "set_data self gdf2 ic cc cg = (e1, s1)"
          by (cases "set_data self gdf2 ic cc cg")
        show ?thesis
        proof (cases e1)
          case (Some err)
          then show ?thesis by (simp add: read_gpkg_layer_def gp Inr \<open>geometry_column ?gdf1 = Some geos\<close> sp r2 sd)
        next
          case None
          show ?thesis
          proof (cases clipg)
            case cn: None
            then show ?thesis
              by (simp add: read_gpkg_layer_def gp Inr \<open>geometry_column ?gdf1 = Some geos\<close> sp r2 sd None)
          next
            case (Some cg')
            obtain e2 s2 where cl: "clip isect s1 cg' = (e2, s2)" by (cases "clip isect s1 cg'")
            then show ?thesis
              by (simp add: read_gpkg_layer_def gp Inr \<open>geometry_column ?gdf1 = Some geos\<close> sp r2 sd None Some)
          qed
        qed
      qed
    qed
  qed
qed

text \<open>
  Claim C2 as stated fails where only one slot of a flagged branch was filled. In the
  layer below the branch \<open>A\<close> has two points; the duplicate order indices of the
  branch \<open>B\<close> shift the relative positions, both points of \<open>A\<close> are assigned
  to slot 0 and slot 1 stays unfilled. The warning for \<open>A\<close> is printed, but
  the constructor refuses the single assigned point: no LineString is built and the
  reader raises.
\<close>

theorem read_gpkg_layer_one_assigned_point_counterexample:
  "count_list (map StrV [''A'', ''B'', ''B'', ''B'', ''A'']) (StrV ''A'' :: (int \<times> int) val) = 2
   \<and> (case assigned_lines ex_nan_sort [StrV ''A'', StrV ''B'']
               (map StrV [''A'', ''B'', ''B'', ''B'', ''A'']) (map Some [1, 1, 1, 1, 2]) (map (\<lambda>i. GeomV (Point (int i, 0 :: int))) [0..<5]) of
         Inl e \<Rightarrow> None
       | Inr lines \<Rightarrow> lines (StrV ''A''))
       = Some (Slots [Some (GeomV (Point (4, 0))), None])
   \<and> read_gpkg_layer ex_intersects ex_lower ex_nan_sort ex_lines_self True
         (ex_layer [''A'', ''B'', ''B'', ''B'', ''A''] [1, 1, 1, 1, 2])
         None (Some ''code'') (Some ''volgnr'') ''code'' None True True None
       = (Some GeometryError, [NotAssigned (StrV ''A'')], ex_lines_self)"
  by code_simp

text \<open>
  Claim C2, as amended. When the grouping reaches the loop that builds the lines (the
  group-by column is among the layer's columns as \<open>str.lower\<close> leaves them, the
  first geometry is a Point, every cell of the order column is an integer or missing,
  and the points were assigned without an exception), a branch of at least two points
  with an unfilled slot is flagged, whatever left the slot unfilled (duplicate order
  indices, a missing order index): the warning naming it is among what
  \<open>read_gpkg_layer\<close> prints, and its entry in \<open>lines\<close> becomes the LineString
  of exactly the assigned slots, in slot order, provided the constructor takes them (at
  least two, all of them Points) and took those of the branches of at least two points
  that precede it in ascending order. The grouping raises ValueError when the group-by
  column is not among the layer's columns as \<open>str.lower\<close> leaves them, and when the
  layer's first geometry is not a Point.
\<close>

theorem read_gpkg_layer_flags_malformed:
  "(gc \<in> set (columns (lower_columns lower raw))
      \<and> geometry_column (lower_columns lower raw) = Some (first # others)
      \<and> isinstance first [PointT]
      \<and> map_of (cols (lower_columns lower raw)) gc = Some gvals
      \<and> map_of (cols (lower_columns lower raw)) oc = Some cells
      \<and> order_values cells = Some order
      \<and> np_unique gvals = Inr branches
      \<and> assigned_lines nan_sort branches gvals order (first # others) = Inr lines1
      \<and> filter (\<lambda>br. \<not> count_list gvals br < 2) branches = pre @ b # post
      \<and> list_all (accepted lines1) pre
      \<and> lines1 b = Some (Slots sl) \<and> None \<in> set sl
      \<and> LineString_of (filter (\<lambda>pt. pt \<noteq> None) sl) = Inr g
     \<longrightarrow> NotAssigned b \<in> set (fst (snd (read_gpkg_layer isect lower nan_sort self True raw ic (Some gc) (Some oc)
                                              idc cm cc cg clipg)))
         \<and> (\<exists>msgs e lines2. group_lines (pre @ b # post) lines1 = (msgs, e, lines2)
                \<and> lines2 b = Some (Line g)))
   \<and> (gc \<notin> set (columns (lower_columns lower raw))
     \<longrightarrow> read_gpkg_layer isect lower nan_sort self True raw ic (Some gc) oc' idc cm cc cg clipg
           = (Some ValueError, [], self))
   \<and> (geometry_column (lower_columns lower raw) = Some (first # others) \<and> \<not> isinstance first [PointT]
     \<longrightarrow> read_gpkg_layer isect lower nan_sort self True raw ic (Some gc) oc' idc cm cc cg clipg
           = (Some ValueError, [], self))"
proof -
  let ?layer = "lower_columns lower raw"
  have a: "NotAssigned b \<in> set (fst (snd (read_gpkg_layer isect lower nan_sort self True raw ic (Some gc) (Some oc)
                                              idc cm cc cg clipg)))
         \<and> (\<exists>msgs e lines2. group_lines (pre @ b # post) lines1 = (msgs, e, lines2)
                \<and> lines2 b = Some (Line g))"
    if h: "gc \<in> set (columns ?layer)
      \<and> geometry_column ?layer = Some (first # others)
      \<and> isinstance first [PointT]
      \<and> map_of (cols ?layer) gc = Some gvals
      \<and> map_of (cols ?layer) oc = Some cells
      \<and> order_values cells = Some order
      \<and> np_unique gvals = Inr branches
      \<and> assigned_lines nan_sort branches gvals order (first # others) = Inr lines1
      \<and> filter (\<lambda>br. \<not> count_list gvals br < 2) branches = pre @ b # post
      \<and> list_all (accepted lines1) pre
      \<and> lines1 b = Some (Slots sl) \<and> None \<in> set sl
      \<and> LineString_of (filter (\<lambda>pt. pt \<noteq> None) sl) = Inr g"
  proof -
    from h have h1: "gc \<in> set (columns ?layer)" and h2: "geometry_column ?layer = Some (first # others)"
      and h3: "isinstance first [PointT]" and h4: "map_of (cols ?layer) gc = Some gvals"
      and h5: "map_of (cols ?layer) oc = Some cells" and h6: "order_values cells = Some order"
      and h7: "np_unique gvals = Inr branches"
      and h8: "assigned_lines nan_sort branches gvals order (first # others) = Inr lines1"
      and h9: "filter (\<lambda>br. \<not> count_list gvals br < 2) branches = pre @ b # post"
      and h10: "list_all (accepted lines1) pre" and h11: "lines1 b = Some (Slots sl)"
      and h12: "None \<in> set sl" and h13: "LineString_of (filter (\<lambda>pt. pt \<noteq> None) sl) = Inr g"
      by simp_all
    obtain msgs e lines2 where gl: "group_lines (pre @ b # post) lines1 = (msgs, e, lines2)"
      by (cases "group_lines (pre @ b # post) lines1")
    have "distinct branches" using h7 by (rule np_unique_distinct)
    then have "distinct (filter (\<lambda>br. \<not> count_list gvals br < 2) branches)" by (rule distinct_filter)
    then have d: "distinct (pre @ b # post)" unfolding h9 .
    from group_lines_entry [of pre b post lines1 sl g msgs e lines2, OF d h10 h11 h13 gl] h12
    have entry: "lines2 b = Some (Line g)" and flag: "NotAssigned b \<in> set msgs"
      by simp_all
    have gl': "group_lines (filter (\<lambda>br. \<not> count_list gvals br < 2) branches) lines1 = (msgs, e, lines2)"
      unfolding h9 by (rule gl)
    have "fst (group_points nan_sort ?layer gc (Some oc)) = msgs"
      using h1 h2 h3 h4 h5 h6 h7 h8 gl' by (rule group_points_printed)
    moreover obtain more where
      "fst (snd (read_gpkg_layer isect lower nan_sort self True raw ic (Some gc) (Some oc) idc cm cc cg clipg))
         = fst (group_points nan_sort ?layer gc (Some oc)) @ more"
      using read_gpkg_layer_printed [of isect lower nan_sort self raw ic gc "Some oc" idc cm cc cg clipg] by blast
    ultimately have "NotAssigned b \<in> set (fst (snd (read_gpkg_layer isect lower nan_sort self True raw ic
            (Some gc) (Some oc) idc cm cc cg clipg)))"
      using flag by simp
    with gl entry show ?thesis by blast
  qed
  have b: "read_gpkg_layer isect lower nan_sort self True raw ic (Some gc) oc' idc cm cc cg clipg
           = (Some ValueError, [], self)"
    if h: "gc \<notin> set (columns ?layer)"
  proof -
    have "group_points nan_sort ?layer gc oc' = ([], Inl ValueError)"
      using h by (simp add: group_points_def)
    then show ?thesis by (simp add: read_gpkg_layer_def Let_def)
  qed
  have c: "read_gpkg_layer isect lower nan_sort self True raw ic (Some gc) oc' idc cm cc cg clipg
           = (Some ValueError, [], self)"
    if h: "geometry_column ?layer = Some (first # others) \<and> \<not> isinstance first [PointT]"
  proof -
    have "group_points nan_sort ?layer gc oc' = ([], Inl ValueError)"
      using h by (cases "gc \<in> set (columns ?layer)") (simp_all add: group_points_def)
    then show ?thesis by (simp add: read_gpkg_layer_def Let_def)
  qed
  from a b c show ?thesis by blast
qed

theorem read_gpkg_layer_flags_malformed_witness:
  "NotAssigned (StrV ''B'')
     \<in> set (fst (snd (read_gpkg_layer ex_intersects ex_lower ex_nan_sort ex_lines_self True
                        (ex_layer [''A'', ''A'', ''B'', ''B'', ''B''] [1, 2, 1, 1, 2])
                        None (Some ''code'') (Some ''volgnr'') ''code'' None True True None)))
   \<and> NotAssigned (StrV ''A'')
     \<in> set (fst (snd (read_gpkg_layer ex_intersects ex_lower ex_nan_sort ex_lines_self True
                        (ex_layer_cells [''A'', ''A'', ''A''] [IntV 1, NaN, IntV 2])
                        None (Some ''code'') (Some ''volgnr'') ''code'' None True True None)))
   \<and> (\<exists>msgs e lines2.
          group_lines [StrV ''A'' :: (int \<times> int) val]
              (projr (assigned_lines ex_nan_sort [StrV ''A''] (map StrV [''A'', ''A'', ''A''])
                        [Some 1, None, Some 2]
                        [GeomV (Point (0, 0)), GeomV (Point (1, 0)), GeomV (Point (2, 0))]))
            = (msgs, e, lines2)
          \<and> lines2 (StrV ''A'') = Some (Line (LineString [(0, 0), (1, 0)])))
   \<and> read_gpkg_layer ex_intersects ex_lower ex_nan_sort ex_lines_self True
         (ex_layer [''A'', ''A'', ''B'', ''B'', ''B''] [1, 2, 1, 1, 2])
         None (Some ''branch'') (Some ''volgnr'') ''code'' None True True None
       = (Some ValueError, [], ex_lines_self)
   \<and> read_gpkg_layer ex_intersects ex_lower ex_nan_sort ex_lines_self True ex_nocode
         None (Some ''name'') (Some ''volgnr'') ''code'' None True True None
       = (Some ValueError, [], ex_lines_self)"
proof -
  let ?raw = "ex_layer [''A'', ''A'', ''B'', ''B'', ''B''] [1, 2, 1, 1, 2]"
  let ?G = "map StrV [''A'', ''A'', ''B'', ''B'', ''B''] :: (int \<times> int) val list"
  let ?C = "map IntV [1, 2, 1, 1, 2] :: (int \<times> int) val list"
  let ?O = "map Some [1, 2, 1, 1, 2] :: int option list"
  let ?first = "GeomV (Point (0, 0)) :: (int \<times> int) val"
  let ?others = "[GeomV (Point (1, 0)), GeomV (Point (2, 0)), GeomV (Point (3, 0)),
                  GeomV (Point (4, 0))] :: (int \<times> int) val list"
  let ?B = "[StrV ''A'', StrV ''B''] :: (int \<times> int) val list"
  let ?lines1 = "projr (assigned_lines ex_nan_sort ?B ?G ?O (?first # ?others))"
  let ?sl = "[Some (GeomV (Point (4, 0))), Some (GeomV (Point (3, 0))), None]
               :: (int \<times> int) val option list"
  have h1: "''code'' \<in> set (columns (lower_columns ex_lower ?raw))" by code_simp
  have h2: "geometry_column (lower_columns ex_lower ?raw) = Some (?first # ?others)" by code_simp
  have h3: "isinstance ?first [PointT]" by simp
  have h4: "map_of (cols (lower_columns ex_lower ?raw)) ''code'' = Some ?G" by code_simp
  have h5: "map_of (cols (lower_columns ex_lower ?raw)) ''volgnr'' = Some ?C" by code_simp
  have h6: "order_values ?C = Some ?O" by code_simp
  have h7: "np_unique ?G = Inr ?B" by code_simp
  have "\<not> isl (assigned_lines ex_nan_sort ?B ?G ?O (?first # ?others))" by code_simp
  then have h8: "assigned_lines ex_nan_sort ?B ?G ?O (?first # ?others) = Inr ?lines1" by simp
  have h9: "filter (\<lambda>br. \<not> count_list ?G br < 2) ?B = [StrV ''A''] @ StrV ''B'' # []"
    by code_simp
  have h10: "list_all (accepted ?lines1) [StrV ''A'']" by code_simp
  have h11: "?lines1 (StrV ''B'') = Some (Slots ?sl)" by code_simp
  have h12: "None \<in> set ?sl" by simp
  have h13: "LineString_of (filter (\<lambda>pt. pt \<noteq> None) ?sl) = Inr (LineString [(4, 0), (3, 0)])"
    by code_simp
  let ?rawn = "ex_layer_cells [''A'', ''A'', ''A''] [IntV 1, NaN, IntV 2]"
  let ?Gn = "map StrV [''A'', ''A'', ''A''] :: (int \<times> int) val list"
  let ?Cn = "[IntV 1, NaN, IntV 2] :: (int \<times> int) val list"
  let ?On = "[Some 1, None, Some 2] :: int option list"
  let ?othersn = "[GeomV (Point (1, 0)), GeomV (Point (2, 0))] :: (int \<times> int) val list"
  let ?Bn = "[StrV ''A''] :: (int \<times> int) val list"
  let ?linesn = "projr (assigned_lines ex_nan_sort ?Bn ?Gn ?On (?first # ?othersn))"
  let ?sln = "[Some (GeomV (Point (0, 0))), None, Some (GeomV (Point (1, 0)))]
               :: (int \<times> int) val option list"
  have n1: "''code'' \<in> set (columns (lower_columns ex_lower ?rawn))" by code_simp
  have n2: "geometry_column (lower_columns ex_lower ?rawn) = Some (?first # ?othersn)"
    by code_simp
  have n4: "map_of (cols (lower_columns ex_lower ?rawn)) ''code'' = Some ?Gn" by code_simp
  have n5: "map_of (cols (lower_columns ex_lower ?rawn)) ''volgnr'' = Some ?Cn" by code_simp
  have n6: "order_values ?Cn = Some ?On" by code_simp
  have n7: "np_unique ?Gn = Inr ?Bn" by code_simp
  have "\<not> isl (assigned_lines ex_nan_sort ?Bn ?Gn ?On (?first # ?othersn))" by code_simp
  then have n8: "assigned_lines ex_nan_sort ?Bn ?Gn ?On (?first # ?othersn) = Inr ?linesn"
    by simp
  have n9: "filter (\<lambda>br. \<not> count_list ?Gn br < 2) ?Bn = [] @ StrV ''A'' # []"
    by code_simp
  have n10: "list_all (accepted ?linesn) []" by simp
  have n11: "?linesn (StrV ''A'') = Some (Slots ?sln)" by code_simp
  have n12: "None \<in> set ?sln" by simp
  have n13: "LineString_of (filter (\<lambda>pt. pt \<noteq> None) ?sln) = Inr (LineString [(0, 0), (1, 0)])"
    by code_simp
  have k1: "''branch'' \<notin> set (columns (lower_columns ex_lower ?raw))" by code_simp
  have k2: "geometry_column (lower_columns ex_lower ex_nocode)
              = Some (GeomV (LineString [(0, 0), (1, 1)]) # [])
     \<and> \<not> isinstance (GeomV (LineString [(0, 0), (1 :: int, 1 :: int)])) [PointT]"
    by code_simp
  note t = read_gpkg_layer_flags_malformed
  note a = t [where gc = "''code''" and lower = ex_lower and raw = ?raw and first = ?first
      and others = ?others and gvals = ?G and oc = "''volgnr''" and cells = ?C and order = ?O
      and branches = ?B and nan_sort = ex_nan_sort and ?lines1.0 = ?lines1
      and pre = "[StrV ''A'']" and b = "StrV ''B''" and post = "[]" and sl = ?sl
      and g = "LineString [(4, 0), (3, 0)]" and isect = ex_intersects and self = ex_lines_self
      and ic = None and idc = "''code''" and cm = None and cc = True and cg = True
      and clipg = None, THEN conjunct1, rule_format, THEN conjunct1]
  note n = t [where gc = "''code''" and lower = ex_lower and raw = ?rawn and first = ?first
      and others = ?othersn and gvals = ?Gn and oc = "''volgnr''" and cells = ?Cn and order = ?On
      and branches = ?Bn and nan_sort = ex_nan_sort and ?lines1.0 = ?linesn
      and pre = "[]" and b = "StrV ''A''" and post = "[]" and sl = ?sln
      and g = "LineString [(0, 0), (1, 0)]" and isect = ex_intersects and self = ex_lines_self
      and ic = None and idc = "''code''" and cm = None and cc = True and cg = True
      and clipg = None, THEN conjunct1, rule_format]
  note b = t [where gc = "''branch''" and lower = ex_lower and nan_sort = ex_nan_sort
      and raw = ?raw and isect = ex_intersects
      and self = ex_lines_self and ic = None and oc' = "Some ''volgnr''" and idc = "''code''"
      and cm = None and cc = True and cg = True and clipg = None,
      THEN conjunct2, THEN conjunct1, rule_format, OF k1]
  note c = t [where gc = "''name''" and lower = ex_lower and nan_sort = ex_nan_sort
      and raw = ex_nocode and isect = ex_intersects
      and self = ex_lines_self and ic = None and oc' = "Some ''volgnr''" and idc = "''code''"
      and cm = None and cc = True and cg = True and clipg = None
      and first = "GeomV (LineString [(0, 0), (1, 1)])" and others = "[]",
      THEN conjunct2, THEN conjunct2, rule_format, OF k2]
  have wa: "NotAssigned (StrV ''B'')
     \<in> set (fst (snd (read_gpkg_layer ex_intersects ex_lower ex_nan_sort ex_lines_self True ?raw
                        None (Some ''code'') (Some ''volgnr'') ''code'' None True True None)))"
    using h1 h2 h3 h4 h5 h6 h7 h8 h9 h10 h11 h12 h13 by (intro a) simp
  have wn: "NotAssigned (StrV ''A'')
     \<in> set (fst (snd (read_gpkg_layer ex_intersects ex_lower ex_nan_sort ex_lines_self True ?rawn
                        None (Some ''code'') (Some ''volgnr'') ''code'' None True True None)))
     \<and> (\<exists>msgs e lines2. group_lines ([] @ StrV ''A'' # []) ?linesn = (msgs, e, lines2)
           \<and> lines2 (StrV ''A'') = Some (Line (LineString [(0, 0), (1, 0)])))"
    using n1 n2 h3 n4 n5 n6 n7 n8 n9 n10 n11 n12 n13 by (intro n) simp
  from wn have wn1: "NotAssigned (StrV ''A'')
     \<in> set (fst (snd (read_gpkg_layer ex_intersects ex_lower ex_nan_sort ex_lines_self True ?rawn
                        None (Some ''code'') (Some ''volgnr'') ''code'' None True True None)))"
    by (rule conjunct1)
  from wn have "\<exists>msgs e lines2. group_lines ([] @ StrV ''A'' # []) ?linesn = (msgs, e, lines2)
           \<and> lines2 (StrV ''A'') = Some (Line (LineString [(0, 0), (1, 0)]))"
    by (rule conjunct2)
  then have wn2: "\<exists>msgs e lines2. group_lines [StrV ''A''] ?linesn = (msgs, e, lines2)
           \<and> lines2 (StrV ''A'') = Some (Line (LineString [(0, 0), (1, 0)]))"
    by (simp only: append_Nil)
  show ?thesis
    apply (intro conjI)
        apply (rule wa)
       apply (rule wn1)
      apply (rule wn2)
     apply (rule b)
    apply (rule c)
    done
qed

section \<open>Reconstruction of the lines by the grouping\<close>

lemma matches_sorted:
  "sorted lst \<Longrightarrow> distinct lst \<Longrightarrow>
   map fst (filter (\<lambda>(i, x). v = x) (enumerate n lst))
     = (if v \<in> set lst then [n + rank lst v] else [])"
proof (induction lst arbitrary: n)
  case Nil
  then show ?case by simp
next
  case (Cons a l)
  from Cons.prems have s: "sorted l" and d: "distinct l" and anl: "a \<notin> set l"
    and le: "\<forall>x \<in> set l. a \<le> x"
    by simp_all
  from le anl have lt: "\<forall>x \<in> set l. a < x" by (metis order_less_le)
  note ih = Cons.IH [OF s d, of "Suc n"]
  show ?case
  proof (cases "v = a")
    case True
    with anl have vn: "v \<notin> set l" by simp
    have "filter (\<lambda>x. x < a) l = []" using lt by (auto simp: filter_empty_conv)
    with True vn ih show ?thesis by (simp add: rank_def)
  next
    case False
    show ?thesis
    proof (cases "v \<in> set l")
      case True
      with lt have "a < v" by simp
      with False True ih show ?thesis by (simp add: rank_def)
    next
      case nin: False
      with False ih show ?thesis by simp
    qed
  qed
qed

lemma length_filter_insort:
  "length (filter P (insort_key f a xs)) = length (filter P (a # xs))"
  by (induction xs) auto

lemma length_filter_sort: "length (filter P (sort_key f xs)) = length (filter P xs)"
proof (induction xs)
  case Nil
  then show ?case by simp
next
  case (Cons a xs)
  have "sort_key f (a # xs) = insort_key f a (sort_key f xs)" by (simp add: sort_key_def)
  then show ?case using Cons by (simp add: length_filter_insort)
qed

lemma rank_sort: "rank (sort vs) v = rank vs v"
  unfolding rank_def by (rule length_filter_sort)

lemma rank_nth_sorted:
  "sorted lst \<Longrightarrow> distinct lst \<Longrightarrow> k < length lst \<Longrightarrow> rank lst (lst ! k) = k"
proof (induction lst arbitrary: k)
  case Nil
  then show ?case by simp
next
  case (Cons a l)
  from Cons.prems have s: "sorted l" and d: "distinct l" and anl: "a \<notin> set l"
    and le: "\<forall>x \<in> set l. a \<le> x"
    by simp_all
  from le anl have lt: "\<forall>x \<in> set l. a < x" by (metis order_less_le)
  show ?case
  proof (cases k)
    case 0
    have "filter (\<lambda>x. x < a) l = []" using lt by (auto simp: filter_empty_conv)
    with 0 show ?thesis by (simp add: rank_def)
  next
    case (Suc j)
    with Cons.prems(3) have j: "j < length l" by simp
    then have "l ! j \<in> set l" by simp
    with lt have "a < l ! j" by simp
    moreover have "rank l (l ! j) = j" using s d j by (rule Cons.IH)
    ultimately show ?thesis using Suc by (simp add: rank_def)
  qed
qed

lemma rank_less: "v \<in> set vs \<Longrightarrow> rank vs v < length vs"
proof -
  assume "v \<in> set vs"
  then have "\<not> v < v \<and> v \<in> set vs" by simp
  then have "length (filter (\<lambda>x. x < v) vs) < length vs"
    by (intro length_filter_less[of v]) simp_all
  then show ?thesis by (simp add: rank_def)
qed

lemma rank_mono: "v \<in> set vs \<Longrightarrow> v < w \<Longrightarrow> rank vs v < rank vs w"
proof (induction vs)
  case Nil
  then show ?case by simp
next
  case (Cons a vs)
  have le: "rank vs v \<le> rank vs w"
    using Cons.prems(2) unfolding rank_def
    by (induction vs) auto
  show ?case
  proof (cases "v \<in> set vs")
    case True
    from Cons.IH [OF True Cons.prems(2)] Cons.prems(2) show ?thesis
      by (auto simp: rank_def)
  next
    case False
    with Cons.prems(1) have "a = v" by simp
    with Cons.prems(2) le show ?thesis by (auto simp: rank_def)
  qed
qed

lemma rank_inj: "v \<in> set vs \<Longrightarrow> w \<in> set vs \<Longrightarrow> rank vs v = rank vs w \<Longrightarrow> v = w"
  by (metis rank_mono less_irrefl linorder_neqE_linordered_idom)

lemma distinct_branch_orders:
  "distinct xs \<Longrightarrow> distinct (map snd (filter (\<lambda>x. fst x = b) xs))"
proof -
  assume d: "distinct xs"
  have "inj_on snd (set (filter (\<lambda>x. fst x = b) xs))"
    by (rule inj_onI) (auto intro: prod_eqI)
  with d show ?thesis by (simp add: distinct_map)
qed

lemma py_eq_Some: "py_eq (Some v) x \<longleftrightarrow> x = Some v"
  by (cases x) (auto simp: py_eq_def)

lemma py_min_Some: "py_min (Some v) (Some a) = Some (min v a)"
  by (simp add: py_min_def py_less_def min_def)

lemma py_sort_Some: "py_sort nan_sort (map Some xs) = map Some (sort xs)"
proof -
  have "List.map_filter (\<lambda>x. x) (map Some xs) = xs"
    by (induction xs) (simp_all add: List.map_filter_simps)
  moreover have "None \<notin> set (map Some xs)" by auto
  ultimately show ?thesis unfolding py_sort_def by (simp only: if_False)
qed

lemma matches_Some:
  "map fst (filter (\<lambda>(i, x). py_eq (Some v) x) (enumerate n (map Some l)))
     = map fst (filter (\<lambda>(i, x). v = x) (enumerate n l))"
  by (induction l arbitrary: n) (auto simp: py_eq_def)

lemma zip_Some: "zip gvals (map Some order) = map (\<lambda>(b, v). (b, Some v)) (zip gvals order)"
  by (simp add: zip_map2 case_prod_unfold)

lemma branch_orders_Some:
  "map snd (filter (\<lambda>x. fst x = b) (map (\<lambda>(b, v). (b, Some v)) rows))
     = map Some (map snd (filter (\<lambda>x. fst x = b) rows))"
  by (induction rows) auto

lemma order_rel_rank:
  assumes "distinct (zip gvals order)"
  shows "order_rel nan_sort gvals (map Some order)
           = map (\<lambda>(b, v). rank (map snd (filter (\<lambda>x. fst x = b) (zip gvals order))) v)
                 (zip gvals order)"
proof -
  let ?rows = "zip gvals order"
  let ?bo = "\<lambda>b. map snd (filter (\<lambda>x. fst x = b) ?rows)"
  have one: "(case r of (branch, volgnr) \<Rightarrow>
               (let lst_volgnr = map Some (sort (?bo branch))
                in map fst (filter (\<lambda>(i, x). py_eq (Some volgnr) x) (enumerate 0 lst_volgnr))))
             = [case r of (b, v) \<Rightarrow> rank (?bo b) v]"
    if r: "r \<in> set ?rows" for r
  proof -
    obtain b v where bv: "r = (b, v)" by (cases r)
    from r bv have mem: "v \<in> set (sort (?bo b))" by force
    have d: "distinct (sort (?bo b))"
      using distinct_branch_orders [OF assms, of b] by simp
    have "map fst (filter (\<lambda>(i, x). v = x) (enumerate 0 (sort (?bo b))))
            = [0 + rank (sort (?bo b)) v]"
      using matches_sorted [of "sort (?bo b)" v 0] d mem by simp
    then show ?thesis unfolding bv by (simp add: rank_sort matches_Some)
  qed
  have "order_rel nan_sort gvals (map Some order)
          = concat (map (\<lambda>(branch, volgnr).
               (let lst_volgnr = map Some (sort (?bo branch))
                in map fst (filter (\<lambda>(i, x). py_eq (Some volgnr) x) (enumerate 0 lst_volgnr))))
              ?rows)"
    unfolding order_rel_def zip_Some branch_orders_Some py_sort_Some
    by (simp add: comp_def case_prod_unfold)
  also have "\<dots> = concat (map (\<lambda>r. [case r of (b, v) \<Rightarrow> rank (?bo b) v]) ?rows)"
    using one by (intro arg_cong [where f = concat] map_cong refl) simp
  also have "\<dots> = map (\<lambda>(b, v). rank (?bo b) v) ?rows"
    by (induction ?rows) auto
  finally show ?thesis .
qed

lemma slots_after_length: "length (slots_after rows b sl) = length sl"
  unfolding slots_after_def by (induction rows arbitrary: sl) (auto split: prod.splits)

lemma slots_after_Cons:
  "slots_after ((pt, v, b', k) # rows) b sl
     = slots_after rows b (if b' = b then sl[k := Some pt] else sl)"
  unfolding slots_after_def by simp

lemma assign_points_ok:
  assumes "\<forall>(pt, v, b, k) \<in> set rows. \<exists>sl. lines b = Some (Slots sl) \<and> k < length sl"
  shows "\<exists>lines'. assign_points rows lines = Inr lines'
           \<and> (\<forall>b. lines' b = (case lines b of
                                  Some (Slots sl) \<Rightarrow> Some (Slots (slots_after rows b sl))
                                | x \<Rightarrow> x))"
  using assms
proof (induction rows arbitrary: lines)
  case Nil
  show ?case by (auto simp: slots_after_def split: option.splits entry.splits)
next
  case (Cons row rows)
  obtain pt v b k where row: "row = (pt, v, b, k)" by (cases row) auto
  from Cons.prems row obtain sl where sl: "lines b = Some (Slots sl)" and k: "k < length sl"
    by auto
  let ?l1 = "lines(b \<mapsto> Slots (sl[k := Some pt]))"
  have pre: "\<forall>(pt', v', b', k') \<in> set rows. \<exists>sl'. ?l1 b' = Some (Slots sl') \<and> k' < length sl'"
  proof (clarify)
    fix pt' v' b' k'
    assume "(pt', v', b', k') \<in> set rows"
    with Cons.prems obtain sl' where "lines b' = Some (Slots sl')" "k' < length sl'" by fastforce
    with sl show "\<exists>sl'. ?l1 b' = Some (Slots sl') \<and> k' < length sl'"
      by (cases "b' = b") auto
  qed
  from Cons.IH [OF pre] obtain lines' where res: "assign_points rows ?l1 = Inr lines'"
    and ent: "\<And>c. lines' c = (case ?l1 c of
                                  Some (Slots sl) \<Rightarrow> Some (Slots (slots_after rows c sl))
                                | x \<Rightarrow> x)"
    by blast
  have step: "assign_points (row # rows) lines = Inr lines'"
    unfolding row using sl k res by simp
  have "lines' c = (case lines c of
                      Some (Slots sl) \<Rightarrow> Some (Slots (slots_after (row # rows) c sl))
                    | x \<Rightarrow> x)" for c
  proof (cases "c = b")
    case True
    with ent [of c] sl show ?thesis unfolding row slots_after_Cons by simp
  next
    case False
    with ent [of c] show ?thesis unfolding row slots_after_Cons
      by (auto split: option.splits entry.splits)
  qed
  with step show ?case by blast
qed

lemma fold_upd_length:
  "length (fold (\<lambda>(v, pt) s. s[R v := Some pt]) prs s) = length s"
proof (induction prs arbitrary: s)
  case Nil
  show ?case by simp
next
  case (Cons r prs)
  obtain a p where r: "r = (a, p)" by (cases r)
  show ?case unfolding r using Cons.IH [of "s[R a := Some p]"] by simp
qed

lemma fold_upd_other:
  "\<forall>r \<in> set prs. R (fst r) \<noteq> j \<Longrightarrow>
   (fold (\<lambda>(v, pt) s. s[R v := Some pt]) prs s) ! j = s ! j"
proof (induction prs arbitrary: s)
  case Nil
  show ?case by simp
next
  case (Cons r prs)
  obtain a p where r: "r = (a, p)" by (cases r)
  from Cons.prems r have ne: "R a \<noteq> j" and rest: "\<forall>r \<in> set prs. R (fst r) \<noteq> j" by simp_all
  have "(fold (\<lambda>(v, pt) s. s[R v := Some pt]) prs (s[R a := Some p])) ! j = (s[R a := Some p]) ! j"
    using rest by (rule Cons.IH)
  also have "\<dots> = s ! j" using ne by simp
  finally show ?case unfolding r by simp
qed

lemma fold_upd_nth:
  "distinct (map fst prs) \<Longrightarrow> inj_on R (fst ` set prs) \<Longrightarrow> (v, pt) \<in> set prs \<Longrightarrow>
   R v < length s \<Longrightarrow>
   (fold (\<lambda>(v, pt) s. s[R v := Some pt]) prs s) ! (R v) = Some pt"
proof (induction prs arbitrary: s)
  case Nil
  then show ?case by simp
next
  case (Cons r prs)
  obtain a p where r: "r = (a, p)" by (cases r)
  from Cons.prems(1) have d: "distinct (map fst prs)" by simp
  from Cons.prems(1) have fresh: "a \<notin> fst ` set prs" unfolding r by simp
  have sub: "fst ` set prs \<subseteq> fst ` set (r # prs)" by auto
  have inj: "inj_on R (fst ` set prs)" using Cons.prems(2) sub by (rule inj_on_subset)
  have unf: "fold (\<lambda>(v, pt) s. s[R v := Some pt]) (r # prs) s
              = fold (\<lambda>(v, pt) s. s[R v := Some pt]) prs (s[R a := Some p])"
    unfolding r by simp
  show ?case
  proof (cases "(v, pt) \<in> set prs")
    case True
    have len: "R v < length (s[R a := Some p])" using Cons.prems(4) by simp
    show ?thesis unfolding unf using d inj True len by (rule Cons.IH)
  next
    case False
    with Cons.prems(3) have "(v, pt) = r" by simp
    then have eq: "a = v" "p = pt" unfolding r by simp_all
    have other: "\<forall>r' \<in> set prs. R (fst r') \<noteq> R v"
    proof
      fix r' assume r': "r' \<in> set prs"
      then have m1: "fst r' \<in> fst ` set prs" by (rule imageI)
      with fresh have ne: "fst r' \<noteq> v" unfolding eq by metis
      from sub m1 have m2: "fst r' \<in> fst ` set (r # prs)" by (rule subsetD)
      have m3: "v \<in> fst ` set (r # prs)" unfolding r eq by simp
      show "R (fst r') \<noteq> R v"
      proof
        assume "R (fst r') = R v"
        with Cons.prems(2) have "fst r' = v" using m2 m3 by (rule inj_onD)
        with ne show False ..
      qed
    qed
    have "(fold (\<lambda>(v, pt) s. s[R v := Some pt]) prs (s[R v := Some pt])) ! (R v)
            = (s[R v := Some pt]) ! (R v)"
      using other by (rule fold_upd_other)
    also have "\<dots> = Some pt" using Cons.prems(4) by simp
    finally show ?thesis unfolding unf eq .
  qed
qed

lemma map_insort_key: "map f (insort_key f a xs) = insort (f a) (map f xs)"
  by (induction xs) simp_all

lemma map_sort_key: "map f (sort_key f xs) = sort (map f xs)"
  by (induction xs) (simp_all add: map_insort_key)

lemma slots_sorted:
  assumes d: "distinct (map fst prs)"
  shows "fold (\<lambda>(v, pt) s. s[rank (map fst prs) v := Some pt]) prs (replicate (length prs) None)
           = map (\<lambda>r. Some (snd r)) (sort_key fst prs)"
proof (rule nth_equalityI)
  show "length (fold (\<lambda>(v, pt) s. s[rank (map fst prs) v := Some pt]) prs
                  (replicate (length prs) None))
          = length (map (\<lambda>r. Some (snd r)) (sort_key fst prs))"
    by (simp add: fold_upd_length)
next
  fix k
  assume "k < length (fold (\<lambda>(v, pt) s. s[rank (map fst prs) v := Some pt]) prs
                        (replicate (length prs) None))"
  then have k: "k < length prs" by (simp add: fold_upd_length)
  let ?S = "sort_key fst prs"
  let ?vs = "map fst prs"
  obtain v pt where vp: "?S ! k = (v, pt)" by (cases "?S ! k")
  have kS: "k < length ?S" using k by simp
  then have "?S ! k \<in> set ?S" by (rule nth_mem)
  then have mem: "(v, pt) \<in> set prs" unfolding vp by simp
  have "sort ?vs ! k = map fst ?S ! k" unfolding map_sort_key ..
  also have "\<dots> = fst (?S ! k)" using kS by (rule nth_map)
  finally have sk: "sort ?vs ! k = v" unfolding vp by simp
  have "rank ?vs v = rank (sort ?vs) (sort ?vs ! k)" unfolding sk by (simp add: rank_sort)
  also have "\<dots> = k" using d k by (intro rank_nth_sorted) simp_all
  finally have rk: "rank ?vs v = k" .
  have inj: "inj_on (rank ?vs) (fst ` set prs)"
  proof (rule inj_onI)
    fix x y
    assume "x \<in> fst ` set prs" "y \<in> fst ` set prs" "rank ?vs x = rank ?vs y"
    then have "x \<in> set ?vs" "y \<in> set ?vs" "rank ?vs x = rank ?vs y" by simp_all
    then show "x = y" by (rule rank_inj)
  qed
  have "(fold (\<lambda>(v, pt) s. s[rank ?vs v := Some pt]) prs (replicate (length prs) None))
           ! (rank ?vs v) = Some pt"
    using d inj mem by (rule fold_upd_nth) (simp add: rk k)
  then show "(fold (\<lambda>(v, pt) s. s[rank ?vs v := Some pt]) prs (replicate (length prs) None)) ! k
          = map (\<lambda>r. Some (snd r)) ?S ! k"
    unfolding rk using vp k by simp
qed

lemma rows_shape:
  "length gvals = length order \<Longrightarrow> length order = length geos \<Longrightarrow>
   zip geos (zip (map Some order) (zip gvals (map f (zip gvals order))))
     = map (\<lambda>(b, v, pt). (pt, Some v, b, f (b, v))) (zip gvals (zip order geos))"
  by (induction gvals order geos rule: list_induct3) simp_all

lemma slots_after_map:
  "slots_after (map (\<lambda>(b, v, pt). (pt, Some v, b, R b v)) T) c sl
     = fold (\<lambda>(v, pt) s. s[R c v := Some pt]) (map snd (filter (\<lambda>r. fst r = c) T)) sl"
proof (induction T arbitrary: sl)
  case Nil
  show ?case by (simp add: slots_after_def)
next
  case (Cons t T)
  obtain b v pt where t: "t = (b, v, pt)" by (cases t) auto
  show ?case
  proof (cases "b = c")
    case True
    then show ?thesis unfolding t using Cons.IH [of "sl[R c v := Some pt]"]
      by (simp add: slots_after_Cons)
  next
    case False
    then show ?thesis unfolding t using Cons.IH [of sl]
      by (simp add: slots_after_Cons)
  qed
qed

lemma branch_orders_rows:
  "length gvals = length order \<Longrightarrow> length order = length geos \<Longrightarrow>
   map fst (branch_rows gvals order geos b) = map snd (filter (\<lambda>x. fst x = b) (zip gvals order))"
  unfolding branch_rows_def
  by (induction gvals order geos rule: list_induct3) simp_all

lemma length_branch_rows:
  "length gvals = length order \<Longrightarrow> length order = length geos \<Longrightarrow>
   length (branch_rows gvals order geos b) = count_list gvals b"
  unfolding branch_rows_def
  by (induction gvals order geos rule: list_induct3) simp_all

lemma set_branch_rows:
  "(v, pt) \<in> set (branch_rows gvals order geos b) \<Longrightarrow> pt \<in> set geos"
  unfolding branch_rows_def by (auto dest!: set_zip_rightD)

lemma slots_of_branch:
  assumes len: "length gvals = length order" "length order = length geos"
    and d: "distinct (zip gvals order)"
  shows "slots_after (zip geos (zip (map Some order) (zip gvals (order_rel nan_sort gvals (map Some order))))) b
           (replicate (count_list gvals b) None)
         = map Some (points_in_order gvals order geos b)"
proof -
  let ?bo = "\<lambda>b. map snd (filter (\<lambda>x. fst x = b) (zip gvals order))"
  let ?prs = "branch_rows gvals order geos b"
  have bo: "map fst ?prs = ?bo b" using len by (rule branch_orders_rows)
  have rows: "zip geos (zip (map Some order) (zip gvals (order_rel nan_sort gvals (map Some order))))
                = map (\<lambda>(b, v, pt). (pt, Some v, b, rank (?bo b) v)) (zip gvals (zip order geos))"
    unfolding order_rel_rank [OF d, of nan_sort]
    using rows_shape [OF len, of "\<lambda>(b, v). rank (?bo b) v"] by simp
  have dp: "distinct (map fst ?prs)" unfolding bo using d by (rule distinct_branch_orders)
  have "slots_after (zip geos (zip (map Some order) (zip gvals (order_rel nan_sort gvals (map Some order))))) b
           (replicate (length ?prs) None)
        = fold (\<lambda>(v, pt) s. s[rank (?bo b) v := Some pt]) ?prs (replicate (length ?prs) None)"
    unfolding rows slots_after_map branch_rows_def ..
  also have "\<dots> = fold (\<lambda>(v, pt) s. s[rank (map fst ?prs) v := Some pt]) ?prs
                        (replicate (length ?prs) None)"
    unfolding bo ..
  also have "\<dots> = map (\<lambda>r. Some (snd r)) (sort_key fst ?prs)"
    using dp by (rule slots_sorted)
  also have "\<dots> = map Some (points_in_order gvals order geos b)"
    unfolding points_in_order_def by simp
  finally show ?thesis unfolding length_branch_rows [OF len] .
qed

lemma np_unique_set: "np_unique vs = Inr bs \<Longrightarrow> set bs = set vs"
proof -
  assume u: "np_unique vs = Inr bs"
  show ?thesis
  proof (cases "list_all is_IntV vs")
    case True
    then have "\<forall>x \<in> set vs. IntV (int_of x) = x" by (simp add: list_all_iff)
    then have "IntV ` int_of ` set vs = set vs" by (force simp: image_iff)
    moreover from u True have "bs = map IntV (sort (remdups (map int_of vs)))"
      by (simp add: np_unique_def)
    ultimately show ?thesis by simp
  next
    case False
    with u have s: "list_all is_StrV vs" and bs: "bs = map StrV (sort (remdups (map str_of vs)))"
      by (simp_all add: np_unique_def split: if_splits)
    from s have "\<forall>x \<in> set vs. StrV (str_of x) = x" by (simp add: list_all_iff)
    then have "StrV ` str_of ` set vs = set vs" by (force simp: image_iff)
    with bs show ?thesis by simp
  qed
qed

lemma LineString_of_points:
  assumes "list_all (\<lambda>g. isinstance g [PointT]) pts" and "length pts \<noteq> 1"
  shows "LineString_of (map Some pts) = Inr (line_through pts)"
proof -
  have "point_coord (Some g) \<noteq> None" if "isinstance g [PointT]" for g :: "'a val"
  proof (cases g)
    case (GeomV geo)
    with that show ?thesis by (cases geo) simp_all
  qed (use that in simp_all)
  with assms(1) have "list_all (\<lambda>pt. point_coord pt \<noteq> None) (map Some pts)"
    by (simp add: list_all_iff)
  with assms(2) show ?thesis
    by (simp add: LineString_of_def line_through_def comp_def)
qed

lemma filter_Some: "filter (\<lambda>pt. pt \<noteq> None) (map Some pts) = map Some pts"
  by (induction pts) simp_all

lemma group_lines_all:
  "distinct bs \<Longrightarrow>
   \<forall>b \<in> set bs. lines b = Some (Slots (map Some (pf b)))
       \<and> list_all (\<lambda>g. isinstance g [PointT]) (pf b) \<and> length (pf b) \<noteq> 1 \<Longrightarrow>
   \<exists>lines'. group_lines bs lines = ([], None, lines')
       \<and> (\<forall>b. lines' b = (if b \<in> set bs then Some (Line (line_through (pf b))) else lines b))"
proof (induction bs arbitrary: lines)
  case Nil
  show ?case by simp
next
  case (Cons b bs)
  from Cons.prems(1) have d: "distinct bs" and fresh: "b \<notin> set bs" by simp_all
  from Cons.prems(2) have lb: "lines b = Some (Slots (map Some (pf b)))"
    and pts: "list_all (\<lambda>g. isinstance g [PointT]) (pf b)" and len: "length (pf b) \<noteq> 1"
    by simp_all
  let ?l1 = "lines(b \<mapsto> Line (line_through (pf b)))"
  have pre: "\<forall>c \<in> set bs. ?l1 c = Some (Slots (map Some (pf c)))
       \<and> list_all (\<lambda>g. isinstance g [PointT]) (pf c) \<and> length (pf c) \<noteq> 1"
  proof
    fix c assume c: "c \<in> set bs"
    with fresh have "c \<noteq> b" by auto
    with Cons.prems(2) c show "?l1 c = Some (Slots (map Some (pf c)))
       \<and> list_all (\<lambda>g. isinstance g [PointT]) (pf c) \<and> length (pf c) \<noteq> 1"
      by simp
  qed
  from Cons.IH [OF d pre] obtain lines' where rec: "group_lines bs ?l1 = ([], None, lines')"
    and ent: "\<And>c. lines' c = (if c \<in> set bs then Some (Line (line_through (pf c))) else ?l1 c)"
    by blast
  have ls: "LineString_of (filter (\<lambda>pt. pt \<noteq> None) (map Some (pf b))) = Inr (line_through (pf b))"
    unfolding filter_Some using pts len by (rule LineString_of_points)
  have nn: "None \<notin> set (map Some (pf b))" by auto
  have "group_lines (b # bs) lines = ([], None, lines')"
    using group_lines_step [of lines b "map Some (pf b)" "line_through (pf b)" bs "[]" None lines',
        OF lb ls rec] nn
    by simp
  moreover have "lines' c = (if c \<in> set (b # bs) then Some (Line (line_through (pf c))) else lines c)"
    for c
    using ent [of c] by (cases "c = b") simp_all
  ultimately show ?case by blast
qed

lemma length_branch_orders:
  "length gvals = length order \<Longrightarrow>
   length (map snd (filter (\<lambda>x. fst x = b) (zip gvals order))) = count_list gvals b"
  by (induction gvals order rule: list_induct2) simp_all

lemma assigned_lines_ok:
  assumes len: "length gvals = length order" "length order = length geos"
    and u: "np_unique gvals = Inr branches"
    and d: "distinct (zip gvals order)"
  shows "\<exists>lines1. assigned_lines nan_sort branches gvals (map Some order) geos = Inr lines1
           \<and> (\<forall>b. lines1 b = (if b \<in> set branches
                                then Some (Slots (map Some (points_in_order gvals order geos b)))
                                else None))"
proof -
  let ?bo = "\<lambda>b. map snd (filter (\<lambda>x. fst x = b) (zip gvals order))"
  let ?rows = "zip geos (zip (map Some order) (zip gvals (order_rel nan_sort gvals (map Some order))))"
  let ?l0 = "map_of (zip branches
                    (map (\<lambda>branch. Slots (replicate (count_list gvals branch) None)) branches))"
  have l0: "?l0 b = (if b \<in> set branches
                     then Some (Slots (replicate (count_list gvals b) None)) else None)" for b
    by (simp add: map_of_zip_map)
  have bs: "set branches = set gvals" using u by (rule np_unique_set)
  have rows: "?rows = map (\<lambda>(b, v, pt). (pt, Some v, b, rank (?bo b) v)) (zip gvals (zip order geos))"
    unfolding order_rel_rank [OF d, of nan_sort]
    using rows_shape [OF len, of "\<lambda>(b, v). rank (?bo b) v"] by simp
  have pre: "\<forall>(pt, v, b, k) \<in> set ?rows. \<exists>sl. ?l0 b = Some (Slots sl) \<and> k < length sl"
  proof (clarify)
    fix pt ov b k
    assume "(pt, ov, b, k) \<in> set ?rows"
    then obtain t where t: "t \<in> set (zip gvals (zip order geos))"
      and eq: "(pt, ov, b, k) = (case t of (b, v, pt) \<Rightarrow> (pt, Some v, b, rank (?bo b) v))"
      unfolding rows by auto
    obtain b' v pt' where t': "t = (b', v, pt')" by (cases t) auto
    from eq t' have k: "k = rank (?bo b) v" and tb: "t = (b, v, pt)" by simp_all
    from t tb have mem: "(b, v, pt) \<in> set (zip gvals (zip order geos))" by simp
    then have bg: "b \<in> set gvals" by (rule set_zip_leftD)
    from mem have "(v, pt) \<in> set (zip order geos)" by (rule set_zip_rightD)
    from mem have "(b, v) \<in> set (zip gvals order)"
      using len by (auto simp: set_zip)
    then have "v \<in> set (?bo b)" by force
    then have "rank (?bo b) v < length (?bo b)" by (rule rank_less)
    then have "k < count_list gvals b" unfolding k length_branch_orders [OF len(1)] .
    with bg bs show "\<exists>sl. ?l0 b = Some (Slots sl) \<and> k < length sl"
      by (simp add: l0)
  qed
  from assign_points_ok [OF pre] obtain lines1 where res: "assign_points ?rows ?l0 = Inr lines1"
    and ent: "\<And>b. lines1 b = (case ?l0 b of
                                  Some (Slots sl) \<Rightarrow> Some (Slots (slots_after ?rows b sl))
                                | x \<Rightarrow> x)"
    by blast
  have "lines1 b = (if b \<in> set branches
                    then Some (Slots (map Some (points_in_order gvals order geos b)))
                    else None)" for b
    using ent [of b] by (simp add: l0 slots_of_branch [OF len d])
  with res show ?thesis unfolding assigned_lines_def by blast
qed

lemma points_in_order_props:
  assumes len: "length gvals = length order" "length order = length geos"
  shows "length (points_in_order gvals order geos b) = count_list gvals b"
    and "set (points_in_order gvals order geos b) \<subseteq> set geos"
proof -
  show "length (points_in_order gvals order geos b) = count_list gvals b"
    unfolding points_in_order_def using length_branch_rows [OF len, of b] by simp
  show "set (points_in_order gvals order geos b) \<subseteq> set geos"
    unfolding points_in_order_def by (auto dest: set_branch_rows)
qed

text \<open>
  The core of the grouping, where claim C1 holds in full. For the columns of a layer
  of Points in which every branch has at least two points, no order index is missing
  and the order indices of a branch are pairwise distinct, the points are assigned without an exception, no branch
  is flagged, and \<open>lines\<close> ends with, for every branch, the LineString through
  that branch's points sorted by ascending order index. The numbering of a branch may
  have gaps and may start at any number.
\<close>

theorem grouping_reconstructs_lines:
  assumes len: "length gvals = length order" "length order = length geos"
    and u: "np_unique gvals = Inr branches"
    and pts: "list_all (\<lambda>g. isinstance g [PointT]) geos"
    and two: "\<forall>b \<in> set branches. 2 \<le> count_list gvals b"
    and d: "distinct (zip gvals order)"
  shows "\<exists>lines1 lines2.
           assigned_lines nan_sort branches gvals (map Some order) geos = Inr lines1
         \<and> group_lines (filter (\<lambda>b. \<not> count_list gvals b < 2) branches) lines1 = ([], None, lines2)
         \<and> (\<forall>b \<in> set branches.
               lines2 b = Some (Line (line_through (points_in_order gvals order geos b))))"
proof -
  let ?pf = "points_in_order gvals order geos"
  from assigned_lines_ok [OF len u d] obtain lines1
    where a: "assigned_lines nan_sort branches gvals (map Some order) geos = Inr lines1"
      and ent: "\<And>b. lines1 b = (if b \<in> set branches then Some (Slots (map Some (?pf b))) else None)"
    by blast
  have f: "filter (\<lambda>b. \<not> count_list gvals b < 2) branches = branches"
    using two by (auto simp: filter_id_conv)
  have db: "distinct branches" using u by (rule np_unique_distinct)
  have pre: "\<forall>b \<in> set branches. lines1 b = Some (Slots (map Some (?pf b)))
       \<and> list_all (\<lambda>g. isinstance g [PointT]) (?pf b) \<and> length (?pf b) \<noteq> 1"
  proof
    fix b assume b: "b \<in> set branches"
    have "list_all (\<lambda>g. isinstance g [PointT]) (?pf b)"
      using pts points_in_order_props(2) [OF len, of b] by (auto simp: list_all_iff)
    moreover have "length (?pf b) \<noteq> 1"
      using two b points_in_order_props(1) [OF len, of b] by auto
    ultimately show "lines1 b = Some (Slots (map Some (?pf b)))
       \<and> list_all (\<lambda>g. isinstance g [PointT]) (?pf b) \<and> length (?pf b) \<noteq> 1"
      using ent [of b] b by simp
  qed
  from group_lines_all [OF db pre] obtain lines2
    where g: "group_lines branches lines1 = ([], None, lines2)"
      and e2: "\<And>b. lines2 b = (if b \<in> set branches then Some (Line (line_through (?pf b)))
                                 else lines1 b)"
    by blast
  from a g e2 show ?thesis unfolding f by auto
qed

lemma startnr_fold:
  "(fold (\<lambda>(b', v) m. m(b' := py_min v (m b'))) (map (\<lambda>(b, v). (b, Some v)) rows)
         (\<lambda>b. Some (m b))) b
     = Some (fold min (map snd (filter (\<lambda>x. fst x = b) rows)) (m b))"
proof (induction rows arbitrary: m)
  case Nil
  show ?case by simp
next
  case (Cons r rows)
  obtain b' v where r: "r = (b', v)" by (cases r)
  let ?F = "\<lambda>(b', v) m. m(b' := py_min v (m b'))"
  let ?G = "\<lambda>(b, v). (b, Some v)"
  let ?m' = "m(b' := min v (m b'))"
  have upd: "(\<lambda>b. Some (m b))(b' := py_min (Some v) (Some (m b'))) = (\<lambda>b. Some (?m' b))"
    by (rule ext) (simp add: py_min_Some)
  have "fold ?F (map ?G (r # rows)) (\<lambda>b. Some (m b))
          = fold ?F (map ?G rows) ((\<lambda>b. Some (m b))(b' := py_min (Some v) (Some (m b'))))"
    unfolding r by simp
  then have e1: "fold ?F (map ?G (r # rows)) (\<lambda>b. Some (m b))
                   = fold ?F (map ?G rows) (\<lambda>b. Some (?m' b))"
    unfolding upd .
  have e2: "fold ?F (map ?G rows) (\<lambda>b. Some (?m' b)) b
              = Some (fold min (map snd (filter (\<lambda>x. fst x = b) rows)) (?m' b))"
    by (rule Cons.IH)
  have e3: "fold min (map snd (filter (\<lambda>x. fst x = b) rows)) (?m' b)
               = fold min (map snd (filter (\<lambda>x. fst x = b) (r # rows))) (m b)"
    unfolding r by (cases "b' = b") simp_all
  show ?case unfolding e1 e2 e3 ..
qed

lemma fold_min_props:
  fixes a :: int
  shows "fold min xs a \<le> a \<and> (\<forall>x \<in> set xs. fold min xs a \<le> x)
         \<and> (fold min xs a = a \<or> fold min xs a \<in> set xs)"
proof (induction xs arbitrary: a)
  case Nil
  show ?case by simp
next
  case (Cons x xs)
  from Cons.IH [of "min x a"] show ?case by (auto simp: min_def split: if_splits)
qed

lemma startnr_min:
  assumes "\<exists>v \<in> set (map snd (filter (\<lambda>x. fst x = b) (zip gvals order))). v \<le> int n + 1"
  shows "\<exists>v \<in> set (map snd (filter (\<lambda>x. fst x = b) (zip gvals order))).
           startnr n gvals (map Some order) b = Some v"
proof -
  let ?bo = "map snd (filter (\<lambda>x. fst x = b) (zip gvals order))"
  let ?s = "fold min ?bo (int n + 1)"
  have s: "startnr n gvals (map Some order) b = Some ?s"
    unfolding startnr_def zip_Some
    using startnr_fold [of "zip gvals order" "\<lambda>b. int n + 1" b] by simp
  from assms obtain v where v: "v \<in> set ?bo" "v \<le> int n + 1" by blast
  from fold_min_props [of ?bo "int n + 1"]
  have le: "\<forall>x \<in> set ?bo. ?s \<le> x" and cases: "?s = int n + 1 \<or> ?s \<in> set ?bo"
    by simp_all
  from cases have "?s \<in> set ?bo"
  proof
    assume e: "?s = int n + 1"
    from le v(1) have "?s \<le> v" by blast
    with e v(2) have "v = ?s" by simp
    with v(1) show ?thesis by simp
  qed
  then show ?thesis unfolding s by blast
qed

lemma enumerate_filter:
  "map fst (filter (\<lambda>(nr, x). P x) (enumerate 0 xs)) = filter (\<lambda>i. P (xs ! i)) [0..<length xs]"
proof (induction xs rule: rev_induct)
  case Nil
  show ?case by simp
next
  case (snoc x xs)
  have "filter (\<lambda>i. P ((xs @ [x]) ! i)) [0..<length xs] = filter (\<lambda>i. P (xs ! i)) [0..<length xs]"
    by (rule filter_cong) (simp_all add: nth_append)
  with snoc show ?case by (simp add: enumerate_append_eq)
qed

lemma line_geometries_ok:
  "\<forall>b \<in> set fb. lines b = Some (Line (g b)) \<Longrightarrow>
   line_geometries lines fb = Inr (map (\<lambda>b. GeomV (g b)) fb)"
  by (induction fb) simp_all

lemma start_rows_filter:
  assumes len: "length gvals = length order"
  shows "start_rows n gvals (map Some order)
           = filter (\<lambda>i. startnr n gvals (map Some order) (gvals ! i) = Some (order ! i))
                    [0..<length gvals]"
proof -
  let ?O = "map Some order"
  let ?P = "\<lambda>x. py_eq (fst x) (startnr n gvals ?O (snd x))"
  have "start_rows n gvals ?O = map fst (filter (\<lambda>(nr, x). ?P x) (enumerate 0 (zip ?O gvals)))"
    unfolding start_rows_def by (simp add: case_prod_unfold)
  also have "\<dots> = filter (\<lambda>i. ?P (zip ?O gvals ! i)) [0..<length (zip ?O gvals)]"
    by (rule enumerate_filter)
  also have "\<dots> = filter (\<lambda>i. startnr n gvals ?O (gvals ! i) = Some (order ! i)) [0..<length gvals]"
    using len by (intro filter_cong) (simp_all add: py_eq_Some)
  finally show ?thesis .
qed

lemma feature_branches:
  assumes len: "length gvals = length order"
    and d: "distinct (zip gvals order)"
    and low: "\<forall>b \<in> set gvals. \<exists>v \<in> set (map snd (filter (\<lambda>x. fst x = b) (zip gvals order))).
                 v \<le> int n + 1"
  shows "distinct (map (\<lambda>i. gvals ! i) (start_rows n gvals (map Some order)))"
    and "set (map (\<lambda>i. gvals ! i) (start_rows n gvals (map Some order))) = set gvals"
proof -
  let ?start = "startnr n gvals (map Some order)"
  let ?idx = "start_rows n gvals (map Some order)"
  have idx: "?idx = filter (\<lambda>i. ?start (gvals ! i) = Some (order ! i)) [0..<length gvals]"
    using len by (rule start_rows_filter)
  have mem: "i \<in> set ?idx \<longleftrightarrow> i < length gvals \<and> ?start (gvals ! i) = Some (order ! i)" for i
    unfolding idx by auto
  have "inj_on (\<lambda>i. gvals ! i) (set ?idx)"
  proof (rule inj_onI)
    fix i j
    assume i: "i \<in> set ?idx" and j: "j \<in> set ?idx" and eq: "gvals ! i = gvals ! j"
    from i j have li: "i < length (zip gvals order)" and lj: "j < length (zip gvals order)"
      using len by (simp_all add: mem)
    from i j eq have "order ! i = order ! j" by (simp add: mem)
    with eq li lj have "zip gvals order ! i = zip gvals order ! j" by simp
    then show "i = j" unfolding nth_eq_iff_index_eq [OF d li lj] .
  qed
  moreover have "distinct ?idx" unfolding idx by simp
  ultimately show "distinct (map (\<lambda>i. gvals ! i) ?idx)" by (simp add: distinct_map)
  show "set (map (\<lambda>i. gvals ! i) ?idx) = set gvals"
  proof
    show "set (map (\<lambda>i. gvals ! i) ?idx) \<subseteq> set gvals" by (auto simp: mem)
    show "set gvals \<subseteq> set (map (\<lambda>i. gvals ! i) ?idx)"
    proof
      fix b assume b: "b \<in> set gvals"
      with low have "\<exists>v \<in> set (map snd (filter (\<lambda>x. fst x = b) (zip gvals order))). v \<le> int n + 1"
        by blast
      then have "\<exists>v \<in> set (map snd (filter (\<lambda>x. fst x = b) (zip gvals order))). ?start b = Some v"
        by (rule startnr_min)
      then obtain v where v: "v \<in> set (map snd (filter (\<lambda>x. fst x = b) (zip gvals order)))"
        and sv: "?start b = Some v"
        by blast
      from v have "(b, v) \<in> set (zip gvals order)" by force
      then obtain i where i: "i < length (zip gvals order)" and e: "zip gvals order ! i = (b, v)"
        by (auto simp: in_set_conv_nth)
      from i e sv have "gvals ! i = b" "?start b = Some (order ! i)" by simp_all
      with i have "i \<in> set ?idx" and "gvals ! i = b" by (simp_all add: mem)
      then show "b \<in> set (map (\<lambda>i. gvals ! i) ?idx)" by force
    qed
  qed
qed

lemma group_points_reached:
  assumes "gc \<in> set (columns layer)"
    and "geometry_column layer = Some (first # others)"
    and "isinstance first [PointT]"
    and "map_of (cols layer) gc = Some gvals"
    and "map_of (cols layer) oc = Some cells"
    and "order_values cells = Some order"
    and "np_unique gvals = Inr branches"
    and "assigned_lines nan_sort branches gvals order (first # others) = Inr lines1"
    and "group_lines (filter (\<lambda>br. \<not> count_list gvals br < 2) branches) lines1 = (msgs, None, lines2)"
    and "\<not> list_ex (\<lambda>branch. count_list gvals branch < 2) branches"
  shows "group_points nan_sort layer gc (Some oc) =
           (case line_geometries lines2
                   (map (\<lambda>i. gvals ! i) (start_rows (length (index layer)) gvals order)) of
              Inl e \<Rightarrow> (msgs, Inl e)
            | Inr geometries \<Rightarrow>
                (msgs, Inr ((iloc (start_rows (length (index layer)) gvals order) layer)
                     \<lparr>cols := AList.update ''geometry'' geometries
                        (cols (iloc (start_rows (length (index layer)) gvals order) layer))\<rparr>)))"
  unfolding group_points_def start_rows_def
  by (simp only: assms if_False if_True not_True_eq_False not_not option.case list.case
      sum.case prod.case Let_def)

lemma map_of_iloc:
  "map_of (cols (iloc idx F)) c = map_option (\<lambda>vs. map (\<lambda>i. vs ! i) idx) (map_of (cols F) c)"
  unfolding iloc_def by (simp add: map_of_map)

text \<open>
  What the reader loads, where claim C1 holds. If moreover the lowest order index of
  every branch is at most the number of rows plus one, \<open>read_gpkg_layer\<close> (without
  column mapping and clipping) hands to \<open>set_data\<close> a dataframe with exactly one
  feature per branch, whose geometry is the LineString through the branch's points
  sorted by ascending order index.
\<close>

theorem read_gpkg_layer_one_line_per_branch:
  assumes wf: "wf_frame (lower_columns lower (raw :: 'c frame))"
    and geo: "geometry_column (lower_columns lower raw) = Some geos"
    and gv: "map_of (cols (lower_columns lower raw)) gc = Some gvals"
    and oc: "map_of (cols (lower_columns lower raw)) oc = Some cells"
    and ints: "order_values cells = Some (map Some order)"
    and u: "np_unique gvals = Inr branches"
    and ne: "geos \<noteq> []"
    and pts: "list_all (\<lambda>g. isinstance g [PointT]) geos"
    and two: "\<forall>b \<in> set branches. 2 \<le> count_list gvals b"
    and d: "distinct (zip gvals order)"
    and low: "\<forall>b \<in> set branches.
                \<exists>v \<in> set (map snd (filter (\<lambda>x. fst x = b) (zip gvals order))).
                  v \<le> int (length geos) + 1"
  shows "\<exists>(gdf :: 'c frame) fb.
           read_gpkg_layer isect lower nan_sort self True raw ic (Some gc) (Some oc) idc None cc cg None
             = (fst (set_data self gdf ic cc cg), [], snd (set_data self gdf ic cc cg))
         \<and> distinct fb \<and> set fb = set branches
         \<and> map_of (cols gdf) gc = Some fb
         \<and> geometry_column gdf
             = Some (map (\<lambda>b. GeomV (line_through (points_in_order gvals order geos b))) fb)"
proof -
  let ?layer = "lower_columns lower raw"
  let ?n = "length (index ?layer)"
  let ?idx = "start_rows ?n gvals (map Some order)"
  let ?fb = "map (\<lambda>i. gvals ! i) ?idx"
  let ?line = "\<lambda>b. line_through (points_in_order gvals order geos b)"
  let ?geometries = "map (\<lambda>b. GeomV (?line b)) ?fb"
  let ?gdf = "(iloc ?idx ?layer)\<lparr>cols := AList.update ''geometry'' ?geometries
                                            (cols (iloc ?idx ?layer))\<rparr>"
  from wf have lens: "\<forall>(c, vs) \<in> set (cols ?layer). length vs = ?n"
    unfolding wf_frame_def by (simp add: list_all_iff)
  from geo have "(''geometry'', geos) \<in> set (cols ?layer)"
    unfolding geometry_column_def by (rule map_of_SomeD)
  with lens have lg: "length geos = ?n" by auto
  from gv have gmem: "(gc, gvals) \<in> set (cols ?layer)" by (rule map_of_SomeD)
  with lens have lv: "length gvals = ?n" by auto
  from oc have "(oc, cells) \<in> set (cols ?layer)" by (rule map_of_SomeD)
  with lens have "length cells = ?n" by auto
  moreover have "length order = length cells"
  proof -
    from ints have "map (\<lambda>c. if c = NaN then None else Some (int_of c)) cells = map Some order"
      by (simp add: order_values_def split: if_splits)
    then have "length cells = length order" by (rule map_eq_imp_length_eq)
    then show ?thesis by simp
  qed
  ultimately have lo: "length order = ?n" by simp
  from lv lo have len1: "length gvals = length order" by simp
  from lo lg have len2: "length order = length geos" by simp
  from gmem have gcin: "gc \<in> set (columns ?layer)" unfolding columns_def by force
  obtain first others where fo: "geos = first # others" using ne by (cases geos) auto
  from pts fo have fp: "isinstance first [PointT]" by simp
  have bs: "set branches = set gvals" using u by (rule np_unique_set)
  have gcne: "gc \<noteq> ''geometry''"
  proof
    assume "gc = ''geometry''"
    with gv geo have eq: "gvals = geos" unfolding geometry_column_def by simp
    from u have "list_all is_IntV gvals \<or> list_all is_StrV gvals"
      by (auto simp: np_unique_def split: if_splits)
    with eq fo have "is_IntV first \<or> is_StrV first" by auto
    with fp show False by (cases first) simp_all
  qed
  from grouping_reconstructs_lines [OF len1 len2 u pts two d, where nan_sort = nan_sort]
  obtain lines1 lines2 where a: "assigned_lines nan_sort branches gvals (map Some order) geos = Inr lines1"
    and g: "group_lines (filter (\<lambda>b. \<not> count_list gvals b < 2) branches) lines1 = ([], None, lines2)"
    and l2: "\<forall>b \<in> set branches. lines2 b = Some (Line (?line b))"
    by blast
  have nosingle: "\<not> list_ex (\<lambda>branch. count_list gvals branch < 2) branches"
    using two by (auto simp: list_ex_iff)
  have low': "\<forall>b \<in> set gvals. \<exists>v \<in> set (map snd (filter (\<lambda>x. fst x = b) (zip gvals order))).
                 v \<le> int ?n + 1"
    using low bs lg by simp
  note fbs = feature_branches [OF len1 d low']
  have "\<forall>b \<in> set ?fb. lines2 b = Some (Line (?line b))"
    using l2 fbs(2) bs by simp
  then have lgs: "line_geometries lines2 ?fb = Inr ?geometries"
    by (rule line_geometries_ok)
  have gp: "group_points nan_sort ?layer gc (Some oc) = ([], Inr ?gdf)"
    using group_points_reached [OF gcin geo [unfolded fo] fp gv oc ints u a [unfolded fo] g nosingle]
    by (simp add: lgs)
  have gcol: "geometry_column ?gdf = Some ?geometries"
    unfolding geometry_column_def by (simp add: update_conv')
  have fcol: "map_of (cols ?gdf) gc = Some ?fb"
    using gcne gv by (simp add: update_conv' map_of_iloc)
  have nomulti: "\<not> list_ex (\<lambda>g. isinstance g [MultiPolygonT]) ?geometries"
    by (simp add: list_ex_iff line_through_def)
  have rd: "read_gpkg_layer isect lower nan_sort self True raw ic (Some gc) (Some oc) idc None cc cg None
          = (fst (set_data self ?gdf ic cc cg), [], snd (set_data self ?gdf ic cc cg))"
    unfolding read_gpkg_layer_def Let_def
    by (simp only: gp rename_columns_def option.case prod.case sum.case gcol nomulti
        if_False if_True not_True_eq_False not_not)
      (simp split: prod.splits option.splits)
  have sb: "set ?fb = set branches" using fbs(2) bs by simp
  have "read_gpkg_layer isect lower nan_sort self True raw ic (Some gc) (Some oc) idc None cc cg None
             = (fst (set_data self ?gdf ic cc cg), [], snd (set_data self ?gdf ic cc cg))
         \<and> distinct ?fb \<and> set ?fb = set branches
         \<and> map_of (cols ?gdf) gc = Some ?fb
         \<and> geometry_column ?gdf = Some (map (\<lambda>b. GeomV (?line b)) ?fb)"
    using rd fbs(1) sb fcol gcol by (intro conjI)
  then have "\<exists>fb. read_gpkg_layer isect lower nan_sort self True raw ic (Some gc) (Some oc) idc None cc cg None
             = (fst (set_data self ?gdf ic cc cg), [], snd (set_data self ?gdf ic cc cg))
         \<and> distinct fb \<and> set fb = set branches
         \<and> map_of (cols ?gdf) gc = Some fb
         \<and> geometry_column ?gdf = Some (map (\<lambda>b. GeomV (?line b)) fb)"
    by (rule exI [where x = ?fb])
  then show ?thesis by (rule exI [where x = ?gdf])
qed

theorem grouping_reconstructs_lines_witness:
  "\<exists>lines1 lines2.
      assigned_lines ex_nan_sort [StrV ''A'', StrV ''B'']
          (map StrV [''B'', ''A'', ''B'', ''A'', ''B'']) (map Some [3, 7, 1, 5, 2]) (map (\<lambda>i. GeomV (Point (int i, 0 :: int))) [0..<5]) = Inr lines1
    \<and> group_lines (filter (\<lambda>b. \<not> count_list (map StrV [''B'', ''A'', ''B'', ''A'', ''B'']) b < 2)
                       [StrV ''A'', StrV ''B'']) lines1 = ([], None, lines2)
    \<and> lines2 (StrV ''A'') = Some (Line (LineString [(3, 0), (1, 0)]))
    \<and> lines2 (StrV ''B'') = Some (Line (LineString [(2, 0), (4, 0), (0, 0)]))"
proof -
  let ?G = "map StrV [''B'', ''A'', ''B'', ''A'', ''B''] :: (int \<times> int) val list"
  let ?O = "[3, 7, 1, 5, 2] :: int list"
  let ?P = "map (\<lambda>i. GeomV (Point (int i, 0 :: int))) [0..<5]"
  let ?B = "[StrV ''A'', StrV ''B''] :: (int \<times> int) val list"
  have len: "length ?G = length ?O" "length ?O = length ?P" by simp_all
  have u: "np_unique ?G = Inr ?B" by code_simp
  have pts: "list_all (\<lambda>g. isinstance g [PointT]) ?P" by code_simp
  have two: "\<forall>b \<in> set ?B. 2 \<le> count_list ?G b" by simp
  have d: "distinct (zip ?G ?O)" by simp
  have a: "line_through (points_in_order ?G ?O ?P (StrV ''A'')) = LineString [(3, 0), (1, 0)]"
    by code_simp
  have b: "line_through (points_in_order ?G ?O ?P (StrV ''B'')) = LineString [(2, 0), (4, 0), (0, 0)]"
    by code_simp
  from grouping_reconstructs_lines [OF len u pts two d, where nan_sort = ex_nan_sort]
  obtain lines1 lines2 where "assigned_lines ex_nan_sort ?B ?G (map Some ?O) ?P = Inr lines1"
    and "group_lines (filter (\<lambda>b. \<not> count_list ?G b < 2) ?B) lines1 = ([], None, lines2)"
    and l: "\<forall>b \<in> set ?B. lines2 b = Some (Line (line_through (points_in_order ?G ?O ?P b)))"
    by blast
  moreover from l have "lines2 (StrV ''A'') = Some (Line (LineString [(3, 0), (1, 0)]))"
    unfolding a [symmetric] by simp
  moreover from l have "lines2 (StrV ''B'') = Some (Line (LineString [(2, 0), (4, 0), (0, 0)]))"
    unfolding b [symmetric] by simp
  ultimately show ?thesis by blast
qed

theorem read_gpkg_layer_one_line_per_branch_witness:
  "\<exists>(gdf :: (int \<times> int) frame) fb.
      read_gpkg_layer ex_intersects ex_lower ex_nan_sort ex_lines_self True
          (ex_layer [''B'', ''A'', ''B'', ''A'', ''B''] [3, 7, 1, 5, 2])
          None (Some ''code'') (Some ''volgnr'') ''code'' None True True None
        = (fst (set_data ex_lines_self gdf None True True), [],
           snd (set_data ex_lines_self gdf None True True))
    \<and> distinct fb \<and> set fb = {StrV ''A'', StrV ''B''}
    \<and> map_of (cols gdf) ''code'' = Some fb
    \<and> geometry_column gdf
        = Some (map (\<lambda>b. GeomV (line_through
              (points_in_order (map StrV [''B'', ''A'', ''B'', ''A'', ''B'']) [3, 7, 1, 5, 2]
                 (map (\<lambda>i. GeomV (Point (int i, 0))) [0..<5]) b))) fb)"
proof -
  let ?raw = "ex_layer [''B'', ''A'', ''B'', ''A'', ''B''] [3, 7, 1, 5, 2]"
  let ?G = "map StrV [''B'', ''A'', ''B'', ''A'', ''B''] :: (int \<times> int) val list"
  let ?C = "map IntV [3, 7, 1, 5, 2] :: (int \<times> int) val list"
  let ?O = "[3, 7, 1, 5, 2] :: int list"
  let ?P = "map (\<lambda>i. GeomV (Point (int i, 0 :: int))) [0..<5]"
  let ?B = "[StrV ''A'', StrV ''B''] :: (int \<times> int) val list"
  have wf: "wf_frame (lower_columns ex_lower ?raw)" by code_simp
  have geo: "geometry_column (lower_columns ex_lower ?raw) = Some ?P" by code_simp
  have gv: "map_of (cols (lower_columns ex_lower ?raw)) ''code'' = Some ?G" by code_simp
  have oc: "map_of (cols (lower_columns ex_lower ?raw)) ''volgnr'' = Some ?C" by code_simp
  have ints: "order_values ?C = Some (map Some ?O)" by code_simp
  have u: "np_unique ?G = Inr ?B" by code_simp
  have ne: "?P \<noteq> []" by code_simp
  have pts: "list_all (\<lambda>g. isinstance g [PointT]) ?P" by code_simp
  have two: "\<forall>b \<in> set ?B. 2 \<le> count_list ?G b" by simp
  have d: "distinct (zip ?G ?O)" by simp
  have low: "\<forall>b \<in> set ?B. \<exists>v \<in> set (map snd (filter (\<lambda>x. fst x = b) (zip ?G ?O))).
                  v \<le> int (length ?P) + 1"
    by simp
  have s: "set ?B = {StrV ''A'', StrV ''B''}" by simp
  show ?thesis
    using read_gpkg_layer_one_line_per_branch [OF wf geo gv oc ints u ne pts two d low,
        of ex_intersects ex_nan_sort ex_lines_self None "''code''" True True]
    unfolding s .
qed

end
